theory Spec2Isabelle
  imports Main "HOL-Library.Word"
begin

unbundle bit_operations_syntax

section \<open>Presence-based lifecycle loop (stream.go, main, lines 329-343)\<close>

text \<open>
  One pass through the body of the polling loop, after the one-second sleep:
  \<^verbatim>\<open>
  remoteParticipants := room.GetRemoteParticipants()
  if len(remoteParticipants) == 0 {
      noParticipantsCount++
      if noParticipantsCount >= 3 { ...; break }
  } else {
      noParticipantsCount = 0
  }
  \<close>
  The peer snapshot is a list of participants of any type. The result is the new value
  of \<open>noParticipantsCount\<close> and whether the loop breaks.
\<close>

definition presence_step :: "int \<Rightarrow> 'p list \<Rightarrow> int \<times> bool" where
  "presence_step noParticipantsCount remoteParticipants =
     (if length remoteParticipants = 0
      then (let c = noParticipantsCount + 1 in
            if c \<ge> 3 then (c, True) else (c, False))
      else (0, False))"

text \<open>
  The loop itself, run over the snapshots that the successive samples return. The second
  argument counts the samples taken so far. The result is the number of the sample
  (counted from 1) at which the loop breaks; \<open>None\<close> says that the loop is still
  polling when the given snapshots are used up.
\<close>

fun presence_loop :: "int \<Rightarrow> nat \<Rightarrow> 'p list list \<Rightarrow> nat option" where
  "presence_loop noParticipantsCount k [] = None"
| "presence_loop noParticipantsCount k (remoteParticipants # rest) =
     (case presence_step noParticipantsCount remoteParticipants of
        (c, True) \<Rightarrow> Some (Suc k)
      | (c, False) \<Rightarrow> presence_loop c (Suc k) rest)"

text \<open>
  For the statement of the hysteresis: the number of consecutive empty snapshots at the
  end of a sequence of snapshots, that is, since the last non-empty one or since the start.
\<close>

definition consecutive_empty :: "'p list list \<Rightarrow> nat" where
  "consecutive_empty ss = length (takeWhile (\<lambda>s. s = []) (rev ss))"

text \<open>
  Sample \<open>k\<close> is the first one after sample \<open>lo\<close> at which the run of empty snapshots
  has length 3.
\<close>

definition first_third_empty :: "nat \<Rightarrow> 'p list list \<Rightarrow> nat \<Rightarrow> bool" where
  "first_third_empty lo ss k \<longleftrightarrow>
     lo < k \<and> k \<le> length ss \<and> consecutive_empty (take k ss) = 3 \<and>
     (\<forall>j. lo \<le> j \<and> j < k \<longrightarrow> consecutive_empty (take j ss) < 3)"

section \<open>Go integers and time values\<close>

text \<open>
  Go's \<open>int\<close>, \<open>int64\<close> and \<open>time.Duration\<close> are 64-bit two's complement integers.
  They are modelled as mathematical integers, with the wrap-around of an addition and the
  saturation of \<open>Time.Sub\<close> written out. Integer division and remainder truncate
  towards zero.
\<close>

definition wrap64 :: "int \<Rightarrow> int" where
  "wrap64 x = (x + 2 ^ 63) mod 2 ^ 64 - 2 ^ 63"

definition maxDuration :: int where
  "maxDuration = 2 ^ 63 - 1"

definition minDuration :: int where
  "minDuration = - (2 ^ 63)"

definition sat64 :: "int \<Rightarrow> int" where
  "sat64 x = (if x > maxDuration then maxDuration
              else if x < minDuration then minDuration else x)"

definition go_div :: "int \<Rightarrow> int \<Rightarrow> int" where
  "go_div a b = sgn a * sgn b * (\<bar>a\<bar> div \<bar>b\<bar>)"

definition go_rem :: "int \<Rightarrow> int \<Rightarrow> int" where
  "go_rem a b = a - b * go_div a b"

text \<open>
  A \<open>time.Time\<close>: the wall-clock instant in nanoseconds since the zero time, and the
  reading of the monotonic clock in nanoseconds, which every value returned by
  \<open>time.Now()\<close> carries and the zero value \<open>time.Time{}\<close> does not.
  \<open>t.Sub(u)\<close> is the difference of the monotonic readings when both values have
  one, and of the wall-clock instants otherwise, saturated to the range of a Duration.
\<close>

datatype gotime = Time (wall: int) (mono: "int option")

definition zero_time :: gotime where
  "zero_time = Time 0 None"

definition time_sub :: "gotime \<Rightarrow> gotime \<Rightarrow> int" where
  "time_sub t u =
     (case mono t of
        Some a \<Rightarrow> (case mono u of Some b \<Rightarrow> sat64 (a - b)
                                 | None \<Rightarrow> sat64 (wall t - wall u))
      | None \<Rightarrow> sat64 (wall t - wall u))"

definition Hour :: int where
  "Hour = 3600000000000"

section \<open>H264Reader.Read (stream.go lines 30-49, stream-file.go lines 27-46)\<close>

type_synonym byte = "8 word"

text \<open>
  The two files define \<open>H264Reader\<close> with the same text. The struct has the wrapped
  reader, a name and a buffer that no method uses. The wrapped reader is outside the
  program: its call \<open>h.reader.Read(p)\<close> is given by its result, the count \<open>n\<close>, the
  error (\<open>None\<close> for \<open>nil\<close>) and the contents of \<open>p\<close> after the call.
\<close>

record H264Reader =
  name :: string
  buffer :: "byte list"

datatype go_panic = IndexOutOfRange

datatype read_log =
    FoundStartCode string int int
  | ReadBytes string int

text \<open>The slice access \<open>p[i]\<close>, which panics outside \<open>0 \<le> i < len(p)\<close>.\<close>

definition index :: "byte list \<Rightarrow> int \<Rightarrow> go_panic + byte" where
  "index p i = (if 0 \<le> i \<and> i < int (length p) then Inr (p ! nat i) else Inl IndexOutOfRange)"

text \<open>\<open>p[i] == v\<close>, and Go's short-circuit \<open>&&\<close> and \<open>||\<close> over operands that may panic.\<close>

definition byte_is :: "byte list \<Rightarrow> int \<Rightarrow> byte \<Rightarrow> go_panic + bool" where
  "byte_is p i v = (case index p i of Inl e \<Rightarrow> Inl e | Inr b \<Rightarrow> Inr (b = v))"

definition and_then :: "go_panic + bool \<Rightarrow> go_panic + bool \<Rightarrow> go_panic + bool" where
  "and_then a b = (case a of Inl e \<Rightarrow> Inl e | Inr False \<Rightarrow> Inr False | Inr True \<Rightarrow> b)"

definition or_else :: "go_panic + bool \<Rightarrow> go_panic + bool \<Rightarrow> go_panic + bool" where
  "or_else a b = (case a of Inl e \<Rightarrow> Inl e | Inr True \<Rightarrow> Inr True | Inr False \<Rightarrow> b)"

text \<open>
  The condition of the scan:
  \<^verbatim>\<open>
  (p[i] == 0 && p[i+1] == 0 && p[i+2] == 0 && p[i+3] == 1) ||
      (p[i] == 0 && p[i+1] == 0 && p[i+2] == 1)
  \<close>
\<close>

definition is_start_code :: "byte list \<Rightarrow> int \<Rightarrow> go_panic + bool" where
  "is_start_code p i =
     or_else
       (and_then (byte_is p i 0) (and_then (byte_is p (i + 1) 0)
          (and_then (byte_is p (i + 2) 0) (byte_is p (i + 3) 1))))
       (and_then (byte_is p i 0) (and_then (byte_is p (i + 1) 0) (byte_is p (i + 2) 1)))"

text \<open>
  The loop \<open>for i := 0; i < n-4; i++\<close> with its variable \<open>start\<close>; the lines it prints
  are collected in order.
\<close>

function scan_loop ::
  "string \<Rightarrow> byte list \<Rightarrow> int \<Rightarrow> int \<Rightarrow> int \<Rightarrow> read_log list \<Rightarrow> go_panic + read_log list" where
  "scan_loop nm p n i start out =
     (if i < n - 4
      then (case is_start_code p i of
              Inl e \<Rightarrow> Inl e
            | Inr True \<Rightarrow>
                scan_loop nm p n (i + 1) i
                  (if start < i then out @ [FoundStartCode nm i (i - start)] else out)
            | Inr False \<Rightarrow> scan_loop nm p n (i + 1) start out)
      else Inr out)"
  by pat_completeness auto
termination
  by (relation "measure (\<lambda>(nm, p, n, i, start, out). nat (n - 4 - i))") auto

declare scan_loop.simps [simp del]

text \<open>
  \<open>Read\<close>: the result is a panic, or the count and error returned to the caller, the
  buffer as the caller finds it, and the lines printed.
\<close>

definition H264Reader_Read ::
  "H264Reader \<Rightarrow> int \<times> 'e option \<times> byte list \<Rightarrow>
     go_panic + (int \<times> 'e option \<times> byte list \<times> read_log list)" where
  "H264Reader_Read h r =
     (case r of (n, err, p) \<Rightarrow>
        if n > 0
        then (case scan_loop (name h) p n 0 0 [] of
                Inl e \<Rightarrow> Inl e
              | Inr out \<Rightarrow> Inr (n, err, p, out @ [ReadBytes (name h) n]))
        else Inr (n, err, p, []))"

text \<open>
  For the statements about the scan: a start code lies entirely within the first \<open>n\<close>
  bytes of \<open>p\<close> at offset \<open>i\<close>; and the offsets that the printed lines report.
\<close>

definition start_code_within :: "byte list \<Rightarrow> nat \<Rightarrow> nat \<Rightarrow> bool" where
  "start_code_within p n i \<longleftrightarrow>
     n \<le> length p \<and>
     ((i + 4 \<le> n \<and> p ! i = 0 \<and> p ! (i + 1) = 0 \<and> p ! (i + 2) = 0 \<and> p ! (i + 3) = 1) \<or>
      (i + 3 \<le> n \<and> p ! i = 0 \<and> p ! (i + 1) = 0 \<and> p ! (i + 2) = 1))"

definition pattern_at :: "byte list \<Rightarrow> nat \<Rightarrow> bool" where
  "pattern_at p i \<longleftrightarrow>
     (p ! i = 0 \<and> p ! (i + 1) = 0 \<and> p ! (i + 2) = 0 \<and> p ! (i + 3) = 1) \<or>
     (p ! i = 0 \<and> p ! (i + 1) = 0 \<and> p ! (i + 2) = 1)"

fun reported_offsets :: "read_log list \<Rightarrow> int list" where
  "reported_offsets [] = []"
| "reported_offsets (FoundStartCode nm i sz # out) = i # reported_offsets out"
| "reported_offsets (ReadBytes nm n # out) = reported_offsets out"

text \<open>What a call prints, or that it panics.\<close>

definition printed ::
  "go_panic + (int \<times> 'e option \<times> byte list \<times> read_log list) \<Rightarrow> go_panic + read_log list" where
  "printed r = (case r of Inl e \<Rightarrow> Inl e | Inr (n, err, p, out) \<Rightarrow> Inr out)"

section \<open>Timing callbacks (stream.go lines 241-311, stream-file.go lines 160-230)\<close>

text \<open>
  The variables of \<open>main\<close> that the two \<open>OnWriteComplete\<close> closures capture. Both files
  declare the same variables and define the two closures with the same text. The two
  frame counters are of type \<open>int\<close> and grow by one per call; they are modelled as
  unbounded integers, since a wrap-around would take \<open>2 ^ 63\<close> calls.
\<close>

record timing =
  frameCount :: int
  lastFrameTime :: gotime
  totalEncodeTime :: int
  maxEncodeTime :: int
  minEncodeTime :: int
  startTime :: gotime
  firstVideoFrame :: bool
  firstAudioFrame :: bool
  videoBytesRead :: int
  audioBytesRead :: int
  audioFrameCount :: int

definition init_timing :: timing where
  "init_timing =
     \<lparr>frameCount = 0, lastFrameTime = zero_time, totalEncodeTime = 0, maxEncodeTime = 0,
      minEncodeTime = Hour, startTime = zero_time, firstVideoFrame = False,
      firstAudioFrame = False, videoBytesRead = 0, audioBytesRead = 0, audioFrameCount = 0\<rparr>"

text \<open>The lines the program prints, with the values that fill their format strings.\<close>

datatype line =
    VideoFirstFrame gotime int int
  | VideoFrameStats int int int int int int
  | AudioFirstFrame gotime int int
  | AudioProcessed int int int
  | FinalVideoStats int int int int
  | FinalAudioStats int

text \<open>
  The video closure; \<open>now\<close> is the value of \<open>time.Now()\<close> in this call. The result is
  the variables after the call and the lines printed.
\<close>

definition video_callback :: "gotime \<Rightarrow> timing \<Rightarrow> timing \<times> line list" where
  "video_callback now s =
     (if \<not> firstVideoFrame s
      then (s\<lparr>startTime := now, firstVideoFrame := True, lastFrameTime := now\<rparr>,
            [VideoFirstFrame now (time_sub now now) (videoBytesRead s)])
      else
        (let encodeTime = time_sub now (lastFrameTime s);
             total = wrap64 (totalEncodeTime s + encodeTime);
             count = frameCount s + 1;
             maxT = (if encodeTime > maxEncodeTime s then encodeTime else maxEncodeTime s);
             minT = (if encodeTime < minEncodeTime s then encodeTime else minEncodeTime s)
         in (s\<lparr>totalEncodeTime := total, frameCount := count, maxEncodeTime := maxT,
                minEncodeTime := minT, lastFrameTime := now\<rparr>,
             if go_rem count 100 = 0
             then [VideoFrameStats count encodeTime (go_div total count) minT maxT
                     (videoBytesRead s)]
             else [])))"

text \<open>The audio closure.\<close>

definition audio_callback :: "gotime \<Rightarrow> timing \<Rightarrow> timing \<times> line list" where
  "audio_callback now s =
     (if \<not> firstAudioFrame s
      then (s\<lparr>firstAudioFrame := True\<rparr>,
            [AudioFirstFrame now (time_sub now (startTime s)) (audioBytesRead s)])
      else
        (let count = audioFrameCount s + 1
         in (s\<lparr>audioFrameCount := count\<rparr>,
             if go_rem count 500 = 0
             then [AudioProcessed count (time_sub now (startTime s)) (audioBytesRead s)]
             else [])))"

text \<open>
  A run of the program calls the two closures in some order, each call with its own
  clock reading. \<open>run\<close> performs the calls in order and collects what each prints.
\<close>

datatype call = Video gotime | Audio gotime

fun callback :: "call \<Rightarrow> timing \<Rightarrow> timing \<times> line list" where
  "callback (Video now) s = video_callback now s"
| "callback (Audio now) s = audio_callback now s"

fun run :: "call list \<Rightarrow> timing \<Rightarrow> timing \<times> line list list" where
  "run [] s = (s, [])"
| "run (c # cs) s =
     (case callback c s of (s', out) \<Rightarrow>
        (case run cs s' of (s'', outs) \<Rightarrow> (s'', out # outs)))"

text \<open>
  For the statements: readings of the monotonic clock, taken in this order, are
  non-negative 64-bit values that do not decrease; the intervals between successive
  readings; the calls of one kind in a run; and the variables of each kind.
\<close>

fun monotonic :: "int \<Rightarrow> gotime list \<Rightarrow> bool" where
  "monotonic lo [] = True"
| "monotonic lo (t # ts) =
     (case mono t of None \<Rightarrow> False
      | Some m \<Rightarrow> lo \<le> m \<and> m < 2 ^ 63 \<and> monotonic m ts)"

fun intervals :: "gotime list \<Rightarrow> int list" where
  "intervals [] = []"
| "intervals [t] = []"
| "intervals (t # u # ts) = time_sub u t # intervals (u # ts)"

fun video_times :: "call list \<Rightarrow> gotime list" where
  "video_times [] = []"
| "video_times (Video t # cs) = t # video_times cs"
| "video_times (Audio t # cs) = video_times cs"

fun audio_times :: "call list \<Rightarrow> gotime list" where
  "audio_times [] = []"
| "audio_times (Video t # cs) = audio_times cs"
| "audio_times (Audio t # cs) = t # audio_times cs"

definition average :: "timing \<Rightarrow> int" where
  "average s = go_div (totalEncodeTime s) (frameCount s)"

text \<open>
  The variables that belong to each media kind. \<open>startTime\<close> is written by the video
  closure and read by both.
\<close>

definition video_vars ::
  "timing \<Rightarrow> int \<times> gotime \<times> int \<times> int \<times> int \<times> gotime \<times> bool \<times> int" where
  "video_vars s =
     (frameCount s, lastFrameTime s, totalEncodeTime s, maxEncodeTime s, minEncodeTime s,
      startTime s, firstVideoFrame s, videoBytesRead s)"

definition audio_vars :: "timing \<Rightarrow> bool \<times> int \<times> int" where
  "audio_vars s = (firstAudioFrame s, audioFrameCount s, audioBytesRead s)"

text \<open>The lines that the calls of one kind print in a run, call by call.\<close>

fun video_out :: "call list \<Rightarrow> line list list \<Rightarrow> line list list" where
  "video_out (Video t # cs) (out # outs) = out # video_out cs outs"
| "video_out (Audio t # cs) (out # outs) = video_out cs outs"
| "video_out cs outs = []"

fun audio_out :: "call list \<Rightarrow> line list list \<Rightarrow> line list list" where
  "audio_out (Audio t # cs) (out # outs) = out # audio_out cs outs"
| "audio_out (Video t # cs) (out # outs) = audio_out cs outs"
| "audio_out cs outs = []"

text \<open>The periodic diagnostic lines, as opposed to the first-frame and the final lines.\<close>

fun is_periodic :: "line \<Rightarrow> bool" where
  "is_periodic (VideoFrameStats c e a mn mx b) = True"
| "is_periodic (AudioProcessed c d b) = True"
| "is_periodic l = False"

text \<open>
  Invariants of the video variables, for the proofs: before the first video call, and
  after it under a monotonic clock.
\<close>

definition fresh :: "timing \<Rightarrow> bool" where
  "fresh s \<longleftrightarrow>
     \<not> firstVideoFrame s \<and> frameCount s = 0 \<and> totalEncodeTime s = 0 \<and>
     maxEncodeTime s = 0 \<and> minEncodeTime s = Hour"

definition stats_ok :: "timing \<Rightarrow> bool" where
  "stats_ok s \<longleftrightarrow>
     firstVideoFrame s \<and> 0 \<le> frameCount s \<and> 0 \<le> totalEncodeTime s \<and>
     (\<exists>l. mono (lastFrameTime s) = Some l \<and> totalEncodeTime s \<le> l \<and> l < 2 ^ 63) \<and>
     frameCount s * minEncodeTime s \<le> totalEncodeTime s \<and>
     totalEncodeTime s \<le> frameCount s * maxEncodeTime s"

section \<open>The video header (stream.go lines 129-139)\<close>

text \<open>
  \<open>binary.Read(rawVideoPipe, binary.LittleEndian, &frameWidth)\<close> reads four bytes with
  \<open>io.ReadFull\<close> and decodes them with \<open>LittleEndian.Uint32\<close>. The raw video channel
  is the list of the bytes that arrive on the pipe before it is closed. \<open>io.ReadFull\<close>
  fails with \<open>EOF\<close> when no byte is left and with \<open>ErrUnexpectedEOF\<close> when some but
  too few are; otherwise it takes the bytes and leaves the rest in the pipe.
\<close>

datatype io_error = EOF | ErrUnexpectedEOF

definition ReadFull :: "byte list \<Rightarrow> nat \<Rightarrow> io_error + (byte list \<times> byte list)" where
  "ReadFull ch n =
     (if n \<le> length ch then Inr (take n ch, drop n ch)
      else if ch = [] then Inl EOF else Inl ErrUnexpectedEOF)"

definition Uint32 :: "byte list \<Rightarrow> 32 word" where
  "Uint32 b =
     ucast (b ! 0) OR push_bit 8 (ucast (b ! 1)) OR push_bit 16 (ucast (b ! 2))
       OR push_bit 24 (ucast (b ! 3))"

definition binary_Read :: "byte list \<Rightarrow> io_error + (32 word \<times> byte list)" where
  "binary_Read ch =
     (case ReadFull ch 4 of
        Inl e \<Rightarrow> Inl e
      | Inr (bs, rest) \<Rightarrow> Inr (Uint32 bs, rest))"

section \<open>The two main functions\<close>

text \<open>
  What \<open>main\<close> does is a list of actions and the way it ends. The actions are the calls
  to the collaborators that the claims speak of; \<open>log.Fatal\<close> ends the program with its
  message, \<open>panic\<close> with a panic; \<open>Polling\<close> says that the presence loop is still
  running when the given snapshots are used up.
\<close>

datatype action =
    RemovePipes
  | Mkfifo string
  | OpenPipe string
  | LogDimensions "32 word" "32 word"
  | ConnectToRoom
  | StartVideoEncoder "32 word" "32 word" "byte list"
  | StartAudioEncoder
  | StartVideoEncoderFromFile
  | StartAudioEncoderFromFile
  | PublishAudio
  | PublishVideo int int
  | Sleep int
  | LogNoParticipants
  | Print line
  | KillVideo
  | KillAudio
  | Disconnect

datatype outcome = Fatal string | Panicked | Returned | Polling

text \<open>
  The collaborators' answers in one run: which calls fail, the bytes of the raw video
  pipe, the peer snapshots of the successive samples, and the calls of the two closures
  that have happened when \<open>main\<close> reads the counters for the final report.
\<close>

record env =
  args :: "string list"
  dotenv_err :: bool
  mkfifo_video_err :: bool
  mkfifo_audio_err :: bool
  open_video_err :: bool
  open_audio_err :: bool
  raw_video :: "byte list"
  connect_err :: bool
  video_stdout_err :: bool
  audio_stdout_err :: bool
  video_start_err :: bool
  audio_start_err :: bool
  video_track_err :: bool
  audio_track_err :: bool
  publish_audio_err :: bool
  publish_video_err :: bool
  snapshots :: "string list list"
  calls :: "call list"

definition after :: "action list \<Rightarrow> action list \<times> outcome \<Rightarrow> action list \<times> outcome" where
  "after as r = (as @ fst r, snd r)"

text \<open>
  The final report and the clean-up, the same text in both files
  (stream.go lines 345-356, stream-file.go lines 251-262).
\<close>

definition final_stats :: "timing \<Rightarrow> line list" where
  "final_stats s =
     (if frameCount s > 0
      then [FinalVideoStats (frameCount s) (go_div (totalEncodeTime s) (frameCount s))
              (minEncodeTime s) (maxEncodeTime s)]
      else []) @
     [FinalAudioStats (audioFrameCount s)]"

definition teardown :: "timing \<Rightarrow> action list" where
  "teardown s = map Print (final_stats s) @ [KillVideo, KillAudio, Disconnect]"

text \<open>stream.go lines 329-357: the presence loop, then the final report and clean-up.\<close>

definition live_monitor :: "env \<Rightarrow> action list \<times> outcome" where
  "live_monitor e =
     (case presence_loop 0 0 (snapshots e) of
        None \<Rightarrow> (replicate (length (snapshots e)) (Sleep 1), Polling)
      | Some k \<Rightarrow>
          (replicate k (Sleep 1) @ [LogNoParticipants] @
             teardown (fst (run (calls e) init_timing)),
           Returned))"

text \<open>stream.go lines 141-327: connect, start the encoders, create and publish the tracks.\<close>

definition live_session :: "env \<Rightarrow> 32 word \<Rightarrow> 32 word \<Rightarrow> byte list \<Rightarrow> action list \<times> outcome" where
  "live_session e frameWidth frameHeight rest =
     (if connect_err e then ([], Panicked)
      else after [ConnectToRoom]
       (if video_stdout_err e then ([], Fatal ''Error creating video pipe:'')
        else if audio_stdout_err e then ([], Fatal ''Error creating audio pipe:'')
        else if video_start_err e then ([], Fatal ''Error starting video ffmpeg:'')
        else after [StartVideoEncoder frameWidth frameHeight rest]
         (if audio_start_err e then ([], Fatal ''Error starting audio ffmpeg:'')
          else after [StartAudioEncoder]
           (if video_track_err e then ([], Fatal ''Error creating video track:'')
            else if audio_track_err e then ([], Fatal ''Error creating audio track:'')
            else if publish_audio_err e then ([], Fatal ''Error publishing audio track:'')
            else after [PublishAudio]
             (if publish_video_err e then ([], Fatal ''Error publishing video track:'')
              else after [PublishVideo (uint frameWidth) (uint frameHeight)]
                (live_monitor e))))))"

text \<open>stream.go lines 129-139: the two header reads.\<close>

definition live_header :: "env \<Rightarrow> action list \<times> outcome" where
  "live_header e =
     (case binary_Read (raw_video e) of
        Inl err \<Rightarrow> ([], Fatal ''Error reading frame width:'')
      | Inr (frameWidth, rest) \<Rightarrow>
          (case binary_Read rest of
             Inl err \<Rightarrow> ([], Fatal ''Error reading frame height:'')
           | Inr (frameHeight, rest') \<Rightarrow>
               after [LogDimensions frameWidth frameHeight]
                 (live_session e frameWidth frameHeight rest')))"

text \<open>stream.go, \<open>main\<close>, from the start (lines 79-127).\<close>

definition main_live :: "env \<Rightarrow> action list \<times> outcome" where
  "main_live e =
     (if length (args e) < 2 then ([], Fatal ''Please provide a room name as argument'')
      else if dotenv_err e then ([], Fatal ''Error loading .env.local file'')
      else after [RemovePipes]
       (if mkfifo_video_err e then ([], Fatal ''Error creating video pipe:'')
        else after [Mkfifo ''/tmp/video_pipe.yuv'']
         (if mkfifo_audio_err e then ([], Fatal ''Error creating audio pipe:'')
          else after [Mkfifo ''/tmp/audio_pipe.raw'']
           (if open_video_err e then ([], Fatal ''Error opening video pipe:'')
            else after [OpenPipe ''/tmp/video_pipe.yuv'']
             (if open_audio_err e then ([], Fatal ''Error opening audio pipe:'')
              else after [OpenPipe ''/tmp/audio_pipe.raw''] (live_header e))))))"

text \<open>stream-file.go, \<open>main\<close> (lines 76-263): no pipes and no header, a fixed wait of 60 seconds.\<close>

definition main_file :: "env \<Rightarrow> action list \<times> outcome" where
  "main_file e =
     (if dotenv_err e then ([], Fatal ''Error loading .env.local file'')
      else if connect_err e then ([], Panicked)
      else after [ConnectToRoom]
       (if video_stdout_err e then ([], Fatal ''Error creating video pipe:'')
        else if audio_stdout_err e then ([], Fatal ''Error creating audio pipe:'')
        else if video_start_err e then ([], Fatal ''Error starting video ffmpeg:'')
        else after [StartVideoEncoderFromFile]
         (if audio_start_err e then ([], Fatal ''Error starting audio ffmpeg:'')
          else after [StartAudioEncoderFromFile]
           (if video_track_err e then ([], Fatal ''Error creating video track:'')
            else if audio_track_err e then ([], Fatal ''Error creating audio track:'')
            else if publish_video_err e then ([], Fatal ''Error publishing video track:'')
            else after [PublishVideo 512 512]
             (if publish_audio_err e then ([], Fatal ''Error publishing audio track:'')
              else after [PublishAudio]
                (Sleep 60 # teardown (fst (run (calls e) init_timing)), Returned))))))"

text \<open>
  For the statements: the lines among the actions, the final video line and the actions
  that publish a track.
\<close>

fun printed_lines :: "action list \<Rightarrow> line list" where
  "printed_lines [] = []"
| "printed_lines (Print l # as) = l # printed_lines as"
| "printed_lines (a # as) = printed_lines as"

fun is_final_video :: "line \<Rightarrow> bool" where
  "is_final_video (FinalVideoStats c a mn mx) = True"
| "is_final_video l = False"

fun is_publish :: "action \<Rightarrow> bool" where
  "is_publish PublishAudio = True"
| "is_publish (PublishVideo w h) = True"
| "is_publish a = False"

text \<open>Some call of the start-up fails: before the header is read, and after it.\<close>

definition pipes_err :: "env \<Rightarrow> bool" where
  "pipes_err e \<longleftrightarrow>
     length (args e) < 2 \<or> dotenv_err e \<or> mkfifo_video_err e \<or> mkfifo_audio_err e \<or>
     open_video_err e \<or> open_audio_err e"

definition session_err :: "env \<Rightarrow> bool" where
  "session_err e \<longleftrightarrow>
     connect_err e \<or> video_stdout_err e \<or> audio_stdout_err e \<or> video_start_err e \<or>
     audio_start_err e \<or> video_track_err e \<or> audio_track_err e \<or>
     publish_audio_err e \<or> publish_video_err e"

text \<open>The little-endian value of the four bytes of \<open>ch\<close> from offset \<open>i\<close>.\<close>

definition le32 :: "byte list \<Rightarrow> nat \<Rightarrow> nat" where
  "le32 ch i =
     unat (ch ! i) + 256 * unat (ch ! (i + 1)) + 65536 * unat (ch ! (i + 2)) +
       16777216 * unat (ch ! (i + 3))"

text \<open>
  A run in which no call fails: a header of 512 by 256 and two more bytes, a peer that
  leaves after the first sample, and three video frames.
\<close>

definition quiet_env :: env where
  "quiet_env =
     \<lparr>args = [''stream'', ''room''], dotenv_err = False, mkfifo_video_err = False,
      mkfifo_audio_err = False, open_video_err = False, open_audio_err = False,
      raw_video = [0, 2, 0, 0, 0, 1, 0, 0, 16, 17],
      connect_err = False, video_stdout_err = False, audio_stdout_err = False,
      video_start_err = False, audio_start_err = False, video_track_err = False,
      audio_track_err = False, publish_audio_err = False, publish_video_err = False,
      snapshots = [ [''user''], [], [], [] ],
      calls = [Video (Time 0 (Some 5)), Video (Time 0 (Some 45)), Video (Time 0 (Some 85))]\<rparr>"

section \<open>Properties of the presence loop\<close>

lemma consecutive_empty_Nil: "consecutive_empty [] = 0"
  by (simp add: consecutive_empty_def)

lemma consecutive_empty_snoc:
  "consecutive_empty (ss @ [s]) = (if s = [] then Suc (consecutive_empty ss) else 0)"
  by (simp add: consecutive_empty_def)

lemma first_third_empty_later:
  assumes "consecutive_empty (pre @ [s]) < 3"
  shows "first_third_empty (length pre) (pre @ s # ss) k \<longleftrightarrow>
         consecutive_empty pre < 3 \<and>
         first_third_empty (Suc (length pre)) ((pre @ [s]) @ ss) k"
proof -
  have t: "take (Suc (length pre)) (pre @ s # ss) = pre @ [s]" by simp
  show ?thesis
  proof
    assume L: "first_third_empty (length pre) (pre @ s # ss) k"
    then have a: "consecutive_empty pre < 3"
      unfolding first_third_empty_def by (metis append_eq_conv_conj le_refl)
    have "k \<noteq> Suc (length pre)"
      using L assms t unfolding first_third_empty_def by auto
    then show "consecutive_empty pre < 3 \<and>
               first_third_empty (Suc (length pre)) ((pre @ [s]) @ ss) k"
      using L a unfolding first_third_empty_def by auto
  next
    assume R: "consecutive_empty pre < 3 \<and>
               first_third_empty (Suc (length pre)) ((pre @ [s]) @ ss) k"
    have "consecutive_empty (take j (pre @ s # ss)) < 3"
      if "length pre \<le> j" "j < k" for j
    proof (cases "j = length pre")
      case True
      then show ?thesis using R by simp
    next
      case False
      then have "Suc (length pre) \<le> j" using that by simp
      then show ?thesis using R that unfolding first_third_empty_def by auto
    qed
    then show "first_third_empty (length pre) (pre @ s # ss) k"
      using R unfolding first_third_empty_def by auto
  qed
qed

lemma first_third_empty_now:
  assumes "consecutive_empty (pre @ [s]) = 3" "consecutive_empty pre < 3"
  shows "first_third_empty (length pre) (pre @ s # ss) k \<longleftrightarrow> k = Suc (length pre)"
proof -
  have t: "take (Suc (length pre)) (pre @ s # ss) = pre @ [s]" by simp
  show ?thesis
  proof
    assume L: "first_third_empty (length pre) (pre @ s # ss) k"
    show "k = Suc (length pre)"
    proof (rule ccontr)
      assume "k \<noteq> Suc (length pre)"
      then have "Suc (length pre) < k"
        using L unfolding first_third_empty_def by auto
      moreover have "\<forall>j. length pre \<le> j \<and> j < k \<longrightarrow>
                       consecutive_empty (take j (pre @ s # ss)) < 3"
        using L unfolding first_third_empty_def by blast
      ultimately have "consecutive_empty (take (Suc (length pre)) (pre @ s # ss)) < 3"
        by (metis Suc_n_not_le_n nat_le_linear)
      then show False using assms t by simp
    qed
  next
    assume "k = Suc (length pre)"
    moreover have "consecutive_empty (take j (pre @ s # ss)) < 3"
      if "length pre \<le> j" "j < Suc (length pre)" for j
    proof -
      have "j = length pre" using that by simp
      then show ?thesis using assms by simp
    qed
    ultimately show "first_third_empty (length pre) (pre @ s # ss) k"
      using assms t unfolding first_third_empty_def by auto
  qed
qed

text \<open>
  The loop invariant: the counter is the length of the run of empty snapshots at the end
  of the samples taken so far, and it is below 3 while the loop runs.
\<close>

lemma presence_loop_invariant:
  "consecutive_empty pre < 3 \<Longrightarrow>
   presence_loop (int (consecutive_empty pre)) (length pre) ss = Some k \<longleftrightarrow>
     first_third_empty (length pre) (pre @ ss) k"
proof (induction ss arbitrary: pre)
  case Nil
  then show ?case by (auto simp: first_third_empty_def)
next
  case (Cons s ss)
  show ?case
  proof (cases "consecutive_empty (pre @ [s]) < 3")
    case True
    have "presence_loop (int (consecutive_empty pre)) (length pre) (s # ss)
          = presence_loop (int (consecutive_empty (pre @ [s]))) (length (pre @ [s])) ss"
      using True
      by (auto simp: consecutive_empty_snoc presence_step_def Let_def add.commute)
    also have "\<dots> = Some k \<longleftrightarrow>
               first_third_empty (length (pre @ [s])) ((pre @ [s]) @ ss) k"
      using Cons.IH[OF True] .
    finally show ?thesis
      using first_third_empty_later[OF True, of ss k] Cons.prems by simp
  next
    case False
    then have e: "s = []" "consecutive_empty pre = 2"
      using Cons.prems by (auto simp: consecutive_empty_snoc split: if_splits)
    then have "consecutive_empty (pre @ [s]) = 3"
      by (simp add: consecutive_empty_snoc)
    from first_third_empty_now[OF this Cons.prems, of ss k] show ?thesis
      using e by (auto simp: presence_step_def Let_def)
  qed
qed

text \<open>
  Claim C1. Started with the counter at 0, the loop breaks (shutdown is signalled) at
  sample \<open>k\<close> exactly when \<open>k\<close> is the first sample at which the run of consecutive
  empty snapshots, counted since the last non-empty snapshot or since the start, has
  reached 3; a non-empty snapshot puts the counter back to 0 and never breaks the loop.
  So the snapshots [empty, empty, non-empty, empty, empty, empty] break the loop at
  sample 6 and [non-empty, empty, empty, empty] at sample 4, never earlier.
\<close>

theorem presence_hysteresis:
  "(presence_loop 0 0 ss = Some k \<longleftrightarrow> first_third_empty 0 ss k) \<and>
   (remoteParticipants \<noteq> [] \<longrightarrow> presence_step c remoteParticipants = (0, False)) \<and>
   presence_loop 0 0 [ [], [], [p], [], [], [] ] = Some 6 \<and>
   presence_loop 0 0 [ [p], [], [], [] ] = Some 4 \<and>
   presence_loop 0 0 [ [p], [], [] ] = None \<and>
   presence_loop 0 0 [ [], [], [p], [], [] ] = None"
proof -
  have "presence_loop 0 0 ss = Some k \<longleftrightarrow> first_third_empty 0 ss k"
    using presence_loop_invariant[of "[]" ss k] by (simp add: consecutive_empty_Nil)
  moreover have "remoteParticipants \<noteq> [] \<longrightarrow> presence_step c remoteParticipants = (0, False)"
    by (simp add: presence_step_def)
  moreover have "presence_loop 0 0 [ [], [], [p], [], [], [] ] = Some 6"
    by (simp add: presence_step_def)
  moreover have "presence_loop 0 0 [ [p], [], [], [] ] = Some 4"
    by (simp add: presence_step_def)
  moreover have "presence_loop 0 0 [ [p], [], [] ] = None"
    by (simp add: presence_step_def)
  moreover have "presence_loop 0 0 [ [], [], [p], [], [] ] = None"
    by (simp add: presence_step_def)
  ultimately show ?thesis by blast
qed

theorem presence_hysteresis_witness:
  "first_third_empty 0 [ [], [], [''peer''], [], [], [] ] 6 \<and>
   presence_step 2 [''peer''] = (0, False)"
  using presence_hysteresis[of "[ [], [], [''peer''], [], [], [] ]" 6 "[''peer'']" 2 "''peer''"]
  by (simp add: presence_step_def)

section \<open>Properties of H264Reader.Read\<close>

lemma is_start_code_in_range:
  assumes "0 \<le> i" "i + 3 < int (length p)"
  shows "is_start_code p i = Inr (pattern_at p (nat i))"
  using assms
  by (auto simp: is_start_code_def or_else_def and_then_def byte_is_def index_def
      pattern_at_def nat_add_distrib split: sum.splits bool.splits)

lemma filter_above:
  "start \<le> i \<Longrightarrow> filter (\<lambda>j. start < j \<and> P j) [i + 1..m] = filter P [i + 1..m]"
  by (rule filter_cong) auto

lemma scan_loop_offsets:
  "n \<le> int (length p) \<Longrightarrow> 0 \<le> i \<Longrightarrow> start \<le> i \<Longrightarrow>
   \<exists>out'. scan_loop nm p n i start out = Inr out' \<and>
     reported_offsets out' =
       reported_offsets out @ filter (\<lambda>j. start < j \<and> pattern_at p (nat j)) [i..n - 5]"
proof (induction nm p n i start out rule: scan_loop.induct)
  case (1 nm p n i start out)
  show ?case
  proof (cases "i < n - 4")
    case False
    then have "[i..n - 5] = []" by simp
    with False show ?thesis by (simp add: scan_loop.simps[of nm p n i])
  next
    case True
    then have sc: "is_start_code p i = Inr (pattern_at p (nat i))"
      using 1 by (intro is_start_code_in_range) auto
    have up: "[i..n - 5] = i # [i + 1..n - 5]" using True by (simp add: upto_rec1)
    show ?thesis
    proof (cases "pattern_at p (nat i)")
      case m: True
      let ?out = "if start < i then out @ [FoundStartCode nm i (i - start)] else out"
      from m have mt: "pattern_at p (nat i) = True" by simp
      from "1.IH"(1)[OF True sc mt] "1.prems" obtain out' where
        o: "scan_loop nm p n (i + 1) i ?out = Inr out'"
           "reported_offsets out' = reported_offsets ?out @
              filter (\<lambda>j. i < j \<and> pattern_at p (nat j)) [i + 1..n - 5]"
        by auto
      have ro: "reported_offsets (xs @ [FoundStartCode nm i d]) = reported_offsets xs @ [i]" for xs d
        by (induction xs rule: reported_offsets.induct) auto
      have "scan_loop nm p n i start out = Inr out'"
        using True sc m o(1) by (simp add: scan_loop.simps[of nm p n i])
      moreover have "reported_offsets out' =
         reported_offsets out @ filter (\<lambda>j. start < j \<and> pattern_at p (nat j)) [i..n - 5]"
        using o(2) m "1.prems"(3) filter_above[of start i "\<lambda>j. pattern_at p (nat j)" "n - 5"]
          filter_above[of i i "\<lambda>j. pattern_at p (nat j)" "n - 5"]
        by (auto simp: up ro)
      ultimately show ?thesis by blast
    next
      case m: False
      from m have mf: "pattern_at p (nat i) = False" by simp
      from "1.IH"(2)[OF True sc mf] "1.prems" obtain out' where
        o: "scan_loop nm p n (i + 1) start out = Inr out'"
           "reported_offsets out' = reported_offsets out @
              filter (\<lambda>j. start < j \<and> pattern_at p (nat j)) [i + 1..n - 5]"
        by auto
      have "scan_loop nm p n i start out = Inr out'"
        using True sc m o(1) by (simp add: scan_loop.simps[of nm p n i])
      moreover have "reported_offsets out' =
         reported_offsets out @ filter (\<lambda>j. start < j \<and> pattern_at p (nat j)) [i..n - 5]"
        using o(2) m by (auto simp: up)
      ultimately show ?thesis by blast
    qed
  qed
qed

lemma start_code_within_pattern:
  assumes "int i < n - 4" "n \<le> int (length p)"
  shows "start_code_within p (nat n) i \<longleftrightarrow> pattern_at p i"
  using assms by (auto simp: start_code_within_def pattern_at_def)

lemma index_take:
  "i < n \<Longrightarrow> index (take (nat n) p) i = index p i"
  by (auto simp: index_def)

lemma is_start_code_take:
  "i < n - 4 \<Longrightarrow> is_start_code (take (nat n) p) i = is_start_code p i"
  by (simp add: is_start_code_def byte_is_def index_take)

lemma scan_loop_take:
  "scan_loop nm (take (nat n) p) n i start out = scan_loop nm p n i start out"
proof (induction nm p n i start out rule: scan_loop.induct)
  case (1 nm p n i start out)
  show ?case
  proof (cases "i < n - 4")
    case False
    then show ?thesis
      by (simp add: scan_loop.simps[of nm _ n i])
  next
    case True
    note sc = is_start_code_take[OF True, of p]
    show ?thesis
    proof (cases "is_start_code p i")
      case (Inl e)
      then show ?thesis using True sc
        by (simp add: scan_loop.simps[of nm _ n i])
    next
      case (Inr b)
      show ?thesis
      proof (cases b)
        case True
        with "1.IH"(1)[OF \<open>i < n - 4\<close> Inr] Inr sc \<open>i < n - 4\<close> show ?thesis
          by (simp add: scan_loop.simps[of nm _ n i])
      next
        case False
        with "1.IH"(2)[OF \<open>i < n - 4\<close> Inr] Inr sc \<open>i < n - 4\<close> show ?thesis
          by (simp add: scan_loop.simps[of nm _ n i])
      qed
    qed
  qed
qed

text \<open>
  The scan stops four bytes before the end of the data: a start code in the last bytes of
  a buffer is not found, here the one at offset 1 of the five bytes 09 00 00 00 01.
\<close>

lemma scan_stops_before_end:
  "start_code_within [9, 0, 0, 0, 1] 5 1 \<and>
   H264Reader_Read \<lparr>name = ''Video'', buffer = []\<rparr> (5, None :: string option, [9, 0, 0, 0, 1])
     = Inr (5, None, [9, 0, 0, 0, 1], [ReadBytes ''Video'' 5])"
  by (simp add: start_code_within_def H264Reader_Read_def scan_loop.simps is_start_code_def
      byte_is_def index_def and_then_def or_else_def)

text \<open>
  Claim C6, as amended. When the wrapped reader returns a count \<open>n\<close> within the buffer,
  \<open>Read\<close> does not panic, and its scan reports, at its offset, every start code
  (00 00 00 01 or 00 00 01) that begins at an offset \<open>i\<close> with \<open>0 < i < n - 4\<close>.
  A start code at offset 0 is never reported: the line is printed only when
  \<open>start < i\<close>, and \<open>start\<close> begins at 0.
\<close>

theorem start_codes_reported:
  "n \<le> int (length p) \<Longrightarrow>
   \<exists>out. H264Reader_Read h (n, err, p) = Inr (n, err, p, out) \<and>
     (\<forall>i. 0 < i \<and> int i < n - 4 \<and> start_code_within p (nat n) i
          \<longrightarrow> int i \<in> set (reported_offsets out)) \<and>
     0 \<notin> set (reported_offsets out)"
proof (cases "n > 0")
  case False
  then show ?thesis by (simp add: H264Reader_Read_def)
next
  case True
  assume n: "n \<le> int (length p)"
  from scan_loop_offsets[OF n, of 0 0 "name h" "[]"] obtain out' where
    o: "scan_loop (name h) p n 0 0 [] = Inr out'"
       "reported_offsets out' = filter (\<lambda>j. 0 < j \<and> pattern_at p (nat j)) [0..n - 5]"
    by auto
  have ro: "reported_offsets (xs @ [ReadBytes nm k]) = reported_offsets xs" for xs nm k
    by (induction xs rule: reported_offsets.induct) auto
  have "H264Reader_Read h (n, err, p) = Inr (n, err, p, out' @ [ReadBytes (name h) n])"
    using True o(1) by (simp add: H264Reader_Read_def)
  moreover have "int i \<in> set (reported_offsets (out' @ [ReadBytes (name h) n]))"
    if "0 < i" "int i < n - 4" "start_code_within p (nat n) i" for i
    using that start_code_within_pattern[OF that(2) n] by (simp add: ro o(2))
  moreover have "0 \<notin> set (reported_offsets (out' @ [ReadBytes (name h) n]))"
    by (simp add: ro o(2))
  ultimately show ?thesis by blast
qed

theorem start_codes_reported_witness:
  "start_code_within [9, 0, 0, 0, 1, 0, 0, 1, 3, 3, 3, 3] 12 5 \<and>
   (\<exists>out. H264Reader_Read \<lparr>name = ''Video'', buffer = []\<rparr>
            (12, None :: string option, [9, 0, 0, 0, 1, 0, 0, 1, 3, 3, 3, 3])
          = Inr (12, None, [9, 0, 0, 0, 1, 0, 0, 1, 3, 3, 3, 3], out) \<and>
        5 \<in> set (reported_offsets out))"
proof -
  let ?p = "[9, 0, 0, 0, 1, 0, 0, 1, 3, 3, 3, 3] :: byte list"
  have w: "start_code_within ?p 12 5"
    by (simp add: start_code_within_def)
  have n: "(12 :: int) \<le> int (length ?p)" by simp
  from start_codes_reported[OF n, of "\<lparr>name = ''Video'', buffer = []\<rparr>" "None :: string option"]
  obtain out where
    o: "H264Reader_Read \<lparr>name = ''Video'', buffer = []\<rparr> (12, None :: string option, ?p)
          = Inr (12, None, ?p, out)"
       "\<forall>i. 0 < i \<and> int i < 12 - 4 \<and> start_code_within ?p (nat 12) i
            \<longrightarrow> int i \<in> set (reported_offsets out)"
    by blast
  from o(2) have "0 < (5 :: nat) \<and> int 5 < 12 - 4 \<and> start_code_within ?p (nat 12) 5
      \<longrightarrow> int 5 \<in> set (reported_offsets out)"
    by (rule spec)
  with w have "5 \<in> set (reported_offsets out)" by simp
  with o(1) w show ?thesis by blast
qed

text \<open>
  Claim C6 as stated fails: the start code 00 00 01 at offset 0 lies entirely within the
  eight bytes read, and the call prints the byte count only.
\<close>

theorem start_codes_reported_counterexample:
  "start_code_within [0, 0, 1, 7, 7, 7, 7, 7] 8 0 \<and>
   H264Reader_Read \<lparr>name = ''Video'', buffer = []\<rparr>
       (8, None :: string option, [0, 0, 1, 7, 7, 7, 7, 7])
     = Inr (8, None, [0, 0, 1, 7, 7, 7, 7, 7], [ReadBytes ''Video'' 8])"
  by (simp add: start_code_within_def H264Reader_Read_def scan_loop.simps is_start_code_def
      byte_is_def index_def and_then_def or_else_def)

text \<open>
  Claim C7. \<open>Read\<close> returns to its caller the byte count and the error of the wrapped
  reader and the buffer as the wrapped reader left it; it returns (does not panic) whenever
  the count is within the buffer; and what it prints is determined by the reader's name,
  the count and the first \<open>n\<close> bytes of the buffer: neither the struct's unused
  \<open>buffer\<close> field nor the error nor anything from an earlier call enters.
\<close>

theorem read_passes_through:
  "(H264Reader_Read h (n, err, p) = Inr (n', err', p', out) \<longrightarrow> n' = n \<and> err' = err \<and> p' = p) \<and>
   (n \<le> int (length p) \<longrightarrow> (\<exists>out. H264Reader_Read h (n, err, p) = Inr (n, err, p, out))) \<and>
   (name h1 = name h2 \<and> take (nat n) p1 = take (nat n) p2 \<longrightarrow>
      printed (H264Reader_Read h1 (n, err1, p1)) = printed (H264Reader_Read h2 (n, err2, p2)))"
proof -
  have a: "H264Reader_Read h (n, err, p) = Inr (n', err', p', out) \<longrightarrow> n' = n \<and> err' = err \<and> p' = p"
    by (auto simp: H264Reader_Read_def split: if_splits sum.splits)
  have b: "n \<le> int (length p) \<longrightarrow> (\<exists>out. H264Reader_Read h (n, err, p) = Inr (n, err, p, out))"
  proof
    assume n: "n \<le> int (length p)"
    from scan_loop_offsets[OF n, of 0 0 "name h" "[]"] show "\<exists>out. H264Reader_Read h (n, err, p) = Inr (n, err, p, out)"
      by (auto simp: H264Reader_Read_def)
  qed
  have c: "name h1 = name h2 \<and> take (nat n) p1 = take (nat n) p2 \<longrightarrow>
      printed (H264Reader_Read h1 (n, err1, p1)) = printed (H264Reader_Read h2 (n, err2, p2))"
  proof
    assume e: "name h1 = name h2 \<and> take (nat n) p1 = take (nat n) p2"
    have "scan_loop (name h1) p1 n 0 0 [] = scan_loop (name h2) p2 n 0 0 []"
      using e scan_loop_take[of "name h1" n p1 0 0 "[]"] scan_loop_take[of "name h2" n p2 0 0 "[]"]
      by simp
    then show "printed (H264Reader_Read h1 (n, err1, p1)) = printed (H264Reader_Read h2 (n, err2, p2))"
      using e by (simp add: H264Reader_Read_def printed_def split: sum.splits)
  qed
  from a b c show ?thesis by blast
qed

theorem read_passes_through_witness:
  "H264Reader_Read \<lparr>name = ''Video'', buffer = []\<rparr> (5, Some ''EOF'', [9, 0, 0, 1, 2, 3, 4])
     = Inr (5, Some ''EOF'', [9, 0, 0, 1, 2, 3, 4], [ReadBytes ''Video'' 5]) \<and>
   printed (H264Reader_Read \<lparr>name = ''Video'', buffer = [1]\<rparr> (5, None :: string option, [9, 0, 0, 1, 2, 8]))
     = Inr [ReadBytes ''Video'' 5]"
proof -
  let ?h = "\<lparr>name = ''Video'', buffer = []\<rparr>"
  let ?h' = "\<lparr>name = ''Video'', buffer = [1]\<rparr>"
  have r: "H264Reader_Read ?h (5, Some ''EOF'', [9, 0, 0, 1, 2, 3, 4])
     = Inr (5, Some ''EOF'', [9, 0, 0, 1, 2, 3, 4], [ReadBytes ''Video'' 5])"
    by (simp add: H264Reader_Read_def scan_loop.simps is_start_code_def
      byte_is_def index_def and_then_def or_else_def)
  have "printed (H264Reader_Read ?h (5, Some ''EOF'', [9, 0, 0, 1, 2, 3, 4]))
        = printed (H264Reader_Read ?h' (5, None :: string option, [9, 0, 0, 1, 2, 8]))"
    using read_passes_through[of ?h 5 "Some ''EOF''" "[9, 0, 0, 1, 2, 3, 4]" 5 "Some ''EOF''"
        "[9, 0, 0, 1, 2, 3, 4]" "[ReadBytes ''Video'' 5]" ?h ?h' "[9, 0, 0, 1, 2, 3, 4]"
        "[9, 0, 0, 1, 2, 8]" "Some ''EOF''" "None :: string option"]
    by simp
  with r show ?thesis by (simp add: printed_def)
qed

section \<open>Properties of the timing callbacks\<close>

lemma wrap64_id: "- (2 ^ 63) \<le> x \<Longrightarrow> x < 2 ^ 63 \<Longrightarrow> wrap64 x = x"
  by (simp add: wrap64_def)

lemma sat64_id: "- (2 ^ 63) \<le> x \<Longrightarrow> x < 2 ^ 63 \<Longrightarrow> sat64 x = x"
  by (simp add: sat64_def maxDuration_def minDuration_def)

lemma time_sub_mono:
  "mono t = Some a \<Longrightarrow> mono u = Some b \<Longrightarrow> 0 \<le> b \<Longrightarrow> b \<le> a \<Longrightarrow> a < 2 ^ 63 \<Longrightarrow>
   time_sub t u = a - b"
  by (simp add: time_sub_def sat64_id)

lemma go_div_nonneg: "0 \<le> a \<Longrightarrow> 0 < b \<Longrightarrow> go_div a b = a div b"
  by (cases "a = 0") (simp_all add: go_div_def)

lemma go_rem_nonneg: "0 \<le> a \<Longrightarrow> 0 < b \<Longrightarrow> go_rem a b = a mod b"
  by (simp add: go_rem_def go_div_nonneg minus_mult_div_eq_mod)

lemma grow_min:
  fixes c :: int
  assumes "0 \<le> c" "c * a \<le> T" "a' \<le> a" "a' \<le> d"
  shows "(c + 1) * a' \<le> T + d"
proof -
  have "c * a' \<le> c * a" using assms(1,3) by (rule mult_left_mono[rotated])
  then show ?thesis using assms(2,4) by (simp add: algebra_simps)
qed

lemma grow_max:
  fixes c :: int
  assumes "0 \<le> c" "T \<le> c * a" "a \<le> a'" "d \<le> a'"
  shows "T + d \<le> (c + 1) * a'"
proof -
  have "c * a \<le> c * a'" using assms(1,3) by (rule mult_left_mono[rotated])
  then show ?thesis using assms(2,4) by (simp add: algebra_simps)
qed

lemma average_between:
  fixes c :: int
  assumes "0 < c" "c * mn \<le> T" "T \<le> c * mx"
  shows "mn \<le> T div c \<and> T div c \<le> mx"
proof -
  have "(c * mn) div c \<le> T div c" using assms(1,2) by (intro zdiv_mono1) auto
  moreover have "T div c \<le> (c * mx) div c" using assms(1,3) by (intro zdiv_mono1) auto
  ultimately show ?thesis using assms(1) by simp
qed

lemma video_first:
  "\<not> firstVideoFrame s \<Longrightarrow>
   video_callback t s =
     (s\<lparr>startTime := t, firstVideoFrame := True, lastFrameTime := t\<rparr>,
      [VideoFirstFrame t (time_sub t t) (videoBytesRead s)])"
  by (simp add: video_callback_def)

lemma video_later:
  assumes "stats_ok s" "mono (lastFrameTime s) = Some l" "mono t = Some m" "l \<le> m" "m < 2 ^ 63"
  shows "stats_ok (fst (video_callback t s)) \<and>
         frameCount (fst (video_callback t s)) = frameCount s + 1 \<and>
         totalEncodeTime (fst (video_callback t s)) = totalEncodeTime s + time_sub t (lastFrameTime s) \<and>
         lastFrameTime (fst (video_callback t s)) = t \<and>
         startTime (fst (video_callback t s)) = startTime s"
proof -
  from assms(1,2) have l: "0 \<le> totalEncodeTime s" "totalEncodeTime s \<le> l" "l < 2 ^ 63"
      "0 \<le> frameCount s" "firstVideoFrame s"
      "frameCount s * minEncodeTime s \<le> totalEncodeTime s"
      "totalEncodeTime s \<le> frameCount s * maxEncodeTime s"
    by (auto simp: stats_ok_def)
  have l0: "0 \<le> l" using l by simp
  have d: "time_sub t (lastFrameTime s) = m - l"
    using assms l0 by (intro time_sub_mono) auto
  have w: "wrap64 (totalEncodeTime s + (m - l)) = totalEncodeTime s + (m - l)"
    using l assms by (intro wrap64_id) auto
  define d' where "d' = m - l"
  have d0: "0 \<le> d'" using assms by (simp add: d'_def)
  have mn: "(frameCount s + 1) * (if d' < minEncodeTime s then d' else minEncodeTime s)
            \<le> totalEncodeTime s + d'"
    using l by (intro grow_min[where a = "minEncodeTime s"]) auto
  have mx: "totalEncodeTime s + d' \<le>
            (frameCount s + 1) * (if d' > maxEncodeTime s then d' else maxEncodeTime s)"
    using l by (intro grow_max[where a = "maxEncodeTime s"]) auto
  have le: "totalEncodeTime s + d' \<le> m" using l by (simp add: d'_def)
  show ?thesis
    using l d w d0 mn mx le assms(3,5) unfolding d'_def[symmetric]
    by (simp add: video_callback_def Let_def stats_ok_def d'_def[symmetric])
qed

lemma audio_keeps_video:
  "frameCount (fst (audio_callback t s)) = frameCount s \<and>
   lastFrameTime (fst (audio_callback t s)) = lastFrameTime s \<and>
   totalEncodeTime (fst (audio_callback t s)) = totalEncodeTime s \<and>
   maxEncodeTime (fst (audio_callback t s)) = maxEncodeTime s \<and>
   minEncodeTime (fst (audio_callback t s)) = minEncodeTime s \<and>
   startTime (fst (audio_callback t s)) = startTime s \<and>
   firstVideoFrame (fst (audio_callback t s)) = firstVideoFrame s \<and>
   videoBytesRead (fst (audio_callback t s)) = videoBytesRead s"
  by (simp add: audio_callback_def Let_def)

lemma audio_keeps_stats_ok: "stats_ok (fst (audio_callback t s)) = stats_ok s"
  by (simp add: stats_ok_def audio_keeps_video)

lemma audio_keeps_fresh: "fresh (fst (audio_callback t s)) = fresh s"
  by (simp add: fresh_def audio_keeps_video)

lemma run_Cons: "fst (run (c # cs) s) = fst (run cs (fst (callback c s)))"
  by (simp split: prod.splits)

lemma run_later:
  assumes "stats_ok s" "mono (lastFrameTime s) = Some l" "monotonic l (video_times cs)"
  shows "stats_ok (fst (run cs s)) \<and>
         frameCount (fst (run cs s)) = frameCount s + int (length (video_times cs)) \<and>
         totalEncodeTime (fst (run cs s)) =
           totalEncodeTime s + sum_list (intervals (lastFrameTime s # video_times cs)) \<and>
         startTime (fst (run cs s)) = startTime s"
  using assms
proof (induction cs arbitrary: s l)
  case Nil
  then show ?case by simp
next
  case (Cons c cs)
  show ?case
  proof (cases c)
    case (Audio t)
    have "stats_ok (fst (audio_callback t s))"
      "mono (lastFrameTime (fst (audio_callback t s))) = Some l"
      "monotonic l (video_times cs)"
      using Cons.prems Audio by (simp_all add: audio_keeps_stats_ok audio_keeps_video)
    from Cons.IH[OF this] show ?thesis
      using Audio by (simp del: run.simps add: run_Cons audio_keeps_video)
  next
    case (Video t)
    from Cons.prems(3) Video obtain m where
      m: "mono t = Some m" "l \<le> m" "m < 2 ^ 63" "monotonic m (video_times cs)"
      by (auto split: option.splits)
    note v = video_later[OF Cons.prems(1,2) m(1,2,3)]
    have "mono (lastFrameTime (fst (video_callback t s))) = Some m"
      using v m(1) by simp
    from Cons.IH[OF _ this m(4)] v show ?thesis
      using Video by (simp del: run.simps add: run_Cons)
  qed
qed

lemma run_fresh:
  assumes "fresh s" "monotonic 0 (video_times cs)" "video_times cs \<noteq> []"
  shows "stats_ok (fst (run cs s)) \<and>
         frameCount (fst (run cs s)) = int (length (video_times cs)) - 1 \<and>
         totalEncodeTime (fst (run cs s)) = sum_list (intervals (video_times cs)) \<and>
         startTime (fst (run cs s)) = hd (video_times cs)"
  using assms
proof (induction cs arbitrary: s)
  case Nil
  then show ?case by simp
next
  case (Cons c cs)
  show ?case
  proof (cases c)
    case (Audio t)
    have "fresh (fst (audio_callback t s))" "monotonic 0 (video_times cs)" "video_times cs \<noteq> []"
      using Cons.prems Audio by (simp_all add: audio_keeps_fresh)
    from Cons.IH[OF this] show ?thesis
      using Audio by (simp del: run.simps add: run_Cons)
  next
    case (Video t)
    from Cons.prems(2) Video obtain m where
      m: "mono t = Some m" "0 \<le> m" "m < 2 ^ 63" "monotonic m (video_times cs)"
      by (auto split: option.splits)
    let ?s = "s\<lparr>startTime := t, firstVideoFrame := True, lastFrameTime := t\<rparr>"
    have f: "fst (video_callback t s) = ?s"
      using Cons.prems(1) by (simp add: video_first fresh_def)
    have ok: "stats_ok ?s"
      using Cons.prems(1) m by (simp add: stats_ok_def fresh_def)
    have "mono (lastFrameTime ?s) = Some m" using m by simp
    from run_later[OF ok this m(4)] show ?thesis
      using Video f Cons.prems(1) by (simp del: run.simps add: run_Cons fresh_def)
  qed
qed

lemma fresh_init: "fresh init_timing"
  by (simp add: fresh_def init_timing_def)

lemma length_intervals: "length (intervals ts) = length ts - 1"
  by (induction ts rule: intervals.induct) auto

text \<open>
  Claim C3. Let the video callback be called \<open>N \<ge> 2\<close> times, at readings of the
  monotonic clock, interleaved in any way with calls of the audio callback. The first call
  records the start time and leaves the counters as they were; afterwards the interval
  count is \<open>N - 1\<close>, the total is the sum of the \<open>N - 1\<close> intervals between
  successive video calls, and minimum \<open>\<le>\<close> average (total / count) \<open>\<le>\<close> maximum.
\<close>

theorem timing_statistics:
  assumes "monotonic 0 (video_times cs)" "length (video_times cs) = N" "2 \<le> N"
  shows "fst (video_callback t init_timing) =
           init_timing\<lparr>startTime := t, firstVideoFrame := True, lastFrameTime := t\<rparr> \<and>
         frameCount (fst (run cs init_timing)) = int N - 1 \<and>
         length (intervals (video_times cs)) = N - 1 \<and>
         totalEncodeTime (fst (run cs init_timing)) = sum_list (intervals (video_times cs)) \<and>
         minEncodeTime (fst (run cs init_timing)) \<le> average (fst (run cs init_timing)) \<and>
         average (fst (run cs init_timing)) \<le> maxEncodeTime (fst (run cs init_timing)) \<and>
         startTime (fst (run cs init_timing)) = hd (video_times cs)"
proof -
  let ?s = "fst (run cs init_timing)"
  have ne: "video_times cs \<noteq> []" using assms by auto
  note r = run_fresh[OF fresh_init assms(1) ne]
  have c: "0 < frameCount ?s" using r assms by simp
  have ok: "stats_ok ?s" using r by simp
  then have b: "frameCount ?s * minEncodeTime ?s \<le> totalEncodeTime ?s"
    "totalEncodeTime ?s \<le> frameCount ?s * maxEncodeTime ?s" "0 \<le> totalEncodeTime ?s"
    by (simp_all add: stats_ok_def)
  have "average ?s = totalEncodeTime ?s div frameCount ?s"
    using b(3) c by (simp add: average_def go_div_nonneg)
  with average_between[OF c b(1,2)] have
    "minEncodeTime ?s \<le> average ?s \<and> average ?s \<le> maxEncodeTime ?s" by simp
  moreover have "fst (video_callback t init_timing) =
           init_timing\<lparr>startTime := t, firstVideoFrame := True, lastFrameTime := t\<rparr>"
    by (simp add: video_callback_def init_timing_def)
  ultimately show ?thesis using r assms by (simp add: length_intervals)
qed

theorem timing_statistics_witness:
  "monotonic 0 (video_times [Video (Time 0 (Some 10)), Audio (Time 0 (Some 20)),
       Video (Time 0 (Some 50)), Video (Time 0 (Some 130))]) \<and>
   frameCount (fst (run [Video (Time 0 (Some 10)), Audio (Time 0 (Some 20)),
       Video (Time 0 (Some 50)), Video (Time 0 (Some 130))] init_timing)) = 2 \<and>
   totalEncodeTime (fst (run [Video (Time 0 (Some 10)), Audio (Time 0 (Some 20)),
       Video (Time 0 (Some 50)), Video (Time 0 (Some 130))] init_timing)) = 120"
proof -
  let ?cs = "[Video (Time 0 (Some 10)), Audio (Time 0 (Some 20)),
       Video (Time 0 (Some 50)), Video (Time 0 (Some 130))]"
  have m: "monotonic 0 (video_times ?cs)" by simp
  have l: "length (video_times ?cs) = 3" by simp
  have i: "sum_list (intervals (video_times ?cs)) = 120"
    by (simp add: time_sub_def sat64_def maxDuration_def minDuration_def)
  from timing_statistics[OF m l, of "Time 0 (Some 10)"] m i show ?thesis by simp
qed

lemma video_keeps_audio: "audio_vars (fst (video_callback t s)) = audio_vars s"
  by (simp add: video_callback_def audio_vars_def Let_def)

lemma audio_keeps_video_vars: "video_vars (fst (audio_callback t s)) = video_vars s"
  by (simp add: video_vars_def audio_keeps_video)

lemma video_reads_video:
  "video_vars s1 = video_vars s2 \<Longrightarrow>
   snd (video_callback t s1) = snd (video_callback t s2) \<and>
   video_vars (fst (video_callback t s1)) = video_vars (fst (video_callback t s2))"
  by (simp add: video_callback_def video_vars_def Let_def)

lemma audio_reads_audio:
  "audio_vars s1 = audio_vars s2 \<Longrightarrow>
   audio_vars (fst (audio_callback t s1)) = audio_vars (fst (audio_callback t s2)) \<and>
   (startTime s1 = startTime s2 \<longrightarrow> snd (audio_callback t s1) = snd (audio_callback t s2))"
  by (simp add: audio_callback_def audio_vars_def Let_def)

lemma run_Cons_snd: "snd (run (c # cs) s) = snd (callback c s) # snd (run cs (fst (callback c s)))"
  by (simp split: prod.splits)

lemma video_out_interleaved:
  "video_vars s1 = video_vars s2 \<Longrightarrow>
   video_out cs (snd (run cs s1)) = snd (run (map Video (video_times cs)) s2) \<and>
   video_vars (fst (run cs s1)) = video_vars (fst (run (map Video (video_times cs)) s2))"
proof (induction cs arbitrary: s1 s2)
  case Nil
  then show ?case by simp
next
  case (Cons c cs)
  show ?case
  proof (cases c)
    case (Video t)
    note v = video_reads_video[OF Cons.prems, of t]
    from Cons.IH[of "fst (video_callback t s1)" "fst (video_callback t s2)"] v
    show ?thesis using Video by (simp del: run.simps add: run_Cons run_Cons_snd)
  next
    case (Audio t)
    have "video_vars (fst (audio_callback t s1)) = video_vars s2"
      using Cons.prems by (simp add: audio_keeps_video_vars)
    from Cons.IH[OF this] show ?thesis
      using Audio by (simp del: run.simps add: run_Cons run_Cons_snd)
  qed
qed

lemma audio_vars_interleaved:
  "audio_vars s1 = audio_vars s2 \<Longrightarrow>
   audio_vars (fst (run cs s1)) = audio_vars (fst (run (map Audio (audio_times cs)) s2))"
proof (induction cs arbitrary: s1 s2)
  case Nil
  then show ?case by simp
next
  case (Cons c cs)
  show ?case
  proof (cases c)
    case (Audio t)
    note a = audio_reads_audio[OF Cons.prems, of t]
    from Cons.IH[of "fst (audio_callback t s1)" "fst (audio_callback t s2)"] a
    show ?thesis using Audio by (simp del: run.simps add: run_Cons)
  next
    case (Video t)
    have "audio_vars (fst (video_callback t s1)) = audio_vars s2"
      using Cons.prems by (simp add: video_keeps_audio)
    from Cons.IH[OF this] show ?thesis
      using Video by (simp del: run.simps add: run_Cons)
  qed
qed

lemma run_counts:
  "frameCount (fst (run cs s)) =
     frameCount s + (if firstVideoFrame s then int (length (video_times cs))
                     else max 0 (int (length (video_times cs)) - 1)) \<and>
   (firstVideoFrame (fst (run cs s)) \<longleftrightarrow> firstVideoFrame s \<or> video_times cs \<noteq> []) \<and>
   audioFrameCount (fst (run cs s)) =
     audioFrameCount s + (if firstAudioFrame s then int (length (audio_times cs))
                          else max 0 (int (length (audio_times cs)) - 1)) \<and>
   (firstAudioFrame (fst (run cs s)) \<longleftrightarrow> firstAudioFrame s \<or> audio_times cs \<noteq> [])"
proof (induction cs arbitrary: s)
  case Nil
  then show ?case by simp
next
  case (Cons c cs)
  show ?case
  proof (cases c)
    case (Video t)
    have "frameCount (fst (video_callback t s)) =
            (if firstVideoFrame s then frameCount s + 1 else frameCount s)"
         "firstVideoFrame (fst (video_callback t s))"
         "audioFrameCount (fst (video_callback t s)) = audioFrameCount s"
         "firstAudioFrame (fst (video_callback t s)) = firstAudioFrame s"
      by (simp_all add: video_callback_def Let_def)
    with Cons.IH[of "fst (video_callback t s)"] show ?thesis
      using Video by (simp del: run.simps add: run_Cons)
  next
    case (Audio t)
    have "audioFrameCount (fst (audio_callback t s)) =
            (if firstAudioFrame s then audioFrameCount s + 1 else audioFrameCount s)"
         "firstAudioFrame (fst (audio_callback t s))"
         "frameCount (fst (audio_callback t s)) = frameCount s"
         "firstVideoFrame (fst (audio_callback t s)) = firstVideoFrame s"
      by (simp_all add: audio_callback_def Let_def)
    with Cons.IH[of "fst (audio_callback t s)"] show ?thesis
      using Audio by (simp del: run.simps add: run_Cons)
  qed
qed

lemma go_rem_nat: "0 < b \<Longrightarrow> go_rem (int n) (int b) = int (n mod b)"
  by (simp add: go_rem_nonneg zmod_int)

lemma video_periodic_step:
  "filter is_periodic (snd (video_callback t s)) \<noteq> [] \<longleftrightarrow>
     firstVideoFrame s \<and> go_rem (frameCount s + 1) 100 = 0"
  by (simp add: video_callback_def Let_def)

lemma audio_periodic_step:
  "filter is_periodic (snd (audio_callback t s)) \<noteq> [] \<longleftrightarrow>
     firstAudioFrame s \<and> go_rem (audioFrameCount s + 1) 500 = 0"
  by (simp add: audio_callback_def Let_def)

lemma video_periodic_iff:
  "filter is_periodic (snd (video_callback t (fst (run pre init_timing)))) \<noteq> [] \<longleftrightarrow>
     0 < length (video_times pre) \<and> length (video_times pre) mod 100 = 0"
proof -
  let ?n = "length (video_times pre)"
  let ?s = "fst (run pre init_timing)"
  have c: "frameCount ?s = max 0 (int ?n - 1)" "firstVideoFrame ?s \<longleftrightarrow> 0 < ?n"
    using run_counts[of pre init_timing] by (simp_all add: init_timing_def)
  show ?thesis
  proof (cases "0 < ?n")
    case False
    then have "\<not> firstVideoFrame ?s" using c(2) by simp
    then show ?thesis using False by (simp only: video_periodic_step) simp
  next
    case True
    then have f: "firstVideoFrame ?s" using c(2) by simp
    have "frameCount ?s + 1 = int ?n" using True c(1) by simp
    then have "go_rem (frameCount ?s + 1) 100 = int (?n mod 100)"
      using go_rem_nat[of 100 ?n] by simp
    then show ?thesis using True f by (simp only: video_periodic_step) simp
  qed
qed

lemma audio_periodic_iff:
  "filter is_periodic (snd (audio_callback t (fst (run pre init_timing)))) \<noteq> [] \<longleftrightarrow>
     0 < length (audio_times pre) \<and> length (audio_times pre) mod 500 = 0"
proof -
  let ?n = "length (audio_times pre)"
  let ?s = "fst (run pre init_timing)"
  have c: "audioFrameCount ?s = max 0 (int ?n - 1)" "firstAudioFrame ?s \<longleftrightarrow> 0 < ?n"
    using run_counts[of pre init_timing] by (simp_all add: init_timing_def)
  show ?thesis
  proof (cases "0 < ?n")
    case False
    then have "\<not> firstAudioFrame ?s" using c(2) by simp
    then show ?thesis using False by (simp only: audio_periodic_step) simp
  next
    case True
    then have f: "firstAudioFrame ?s" using c(2) by simp
    have "audioFrameCount ?s + 1 = int ?n" using True c(1) by simp
    then have "go_rem (audioFrameCount ?s + 1) 500 = int (?n mod 500)"
      using go_rem_nat[of 500 ?n] by simp
    then show ?thesis using True f by (simp only: audio_periodic_step) simp
  qed
qed

lemma video_times_replicate: "video_times (replicate n (Video t)) = replicate n t"
  by (induction n) auto

lemma audio_times_replicate: "audio_times (replicate n (Audio t)) = replicate n t"
  by (induction n) auto

text \<open>
  Claim C9, as amended. A video call prints the periodic line exactly when the number of
  video calls before it is a positive multiple of 100, that is on the delivered video
  frames number 101, 201, 301 and so on; an audio call exactly when the number of audio
  calls before it is a positive multiple of 500, on the frames number 501, 1001 and so on.
  The counters count the frames after the first.
\<close>

theorem periodic_lines:
  "(filter is_periodic (snd (video_callback t (fst (run pre init_timing)))) \<noteq> [] \<longleftrightarrow>
     0 < length (video_times pre) \<and> length (video_times pre) mod 100 = 0) \<and>
   (filter is_periodic (snd (audio_callback t (fst (run pre init_timing)))) \<noteq> [] \<longleftrightarrow>
     0 < length (audio_times pre) \<and> length (audio_times pre) mod 500 = 0)"
  using video_periodic_iff[of t pre] audio_periodic_iff[of t pre] by (rule conjI)

theorem periodic_lines_witness:
  "filter is_periodic (snd (video_callback (Time 0 (Some 0))
      (fst (run (replicate 200 (Video (Time 0 (Some 0)))) init_timing)))) \<noteq> [] \<and>
   filter is_periodic (snd (audio_callback (Time 0 (Some 0))
      (fst (run (replicate 200 (Video (Time 0 (Some 0)))) init_timing)))) = []"
proof -
  let ?t = "Time 0 (Some 0)"
  let ?pre = "replicate 200 (Video ?t)"
  have v: "0 < length (video_times ?pre) \<and> length (video_times ?pre) mod 100 = 0"
    by (simp only: video_times_replicate length_replicate) simp
  have "audio_times (replicate n (Video ?t)) = []" for n by (induction n) auto
  then have a: "\<not> (0 < length (audio_times ?pre) \<and> length (audio_times ?pre) mod 500 = 0)"
    by (simp only:) simp
  from periodic_lines[of ?t ?pre] v a show ?thesis by blast
qed

text \<open>
  Claim C9 as stated fails: the 100th video call and the 500th audio call print no
  periodic line, the 101st and the 501st do.
\<close>

theorem periodic_lines_counterexample:
  "filter is_periodic (snd (video_callback (Time 0 (Some 0))
      (fst (run (replicate 99 (Video (Time 0 (Some 0)))) init_timing)))) = [] \<and>
   filter is_periodic (snd (video_callback (Time 0 (Some 0))
      (fst (run (replicate 100 (Video (Time 0 (Some 0)))) init_timing)))) \<noteq> [] \<and>
   filter is_periodic (snd (audio_callback (Time 0 (Some 0))
      (fst (run (replicate 499 (Audio (Time 0 (Some 0)))) init_timing)))) = [] \<and>
   filter is_periodic (snd (audio_callback (Time 0 (Some 0))
      (fst (run (replicate 500 (Audio (Time 0 (Some 0)))) init_timing)))) \<noteq> []"
proof -
  let ?t = "Time 0 (Some 0)"
  have v: "length (video_times (replicate n (Video ?t))) = n" for n
    by (simp only: video_times_replicate length_replicate)
  have a: "length (audio_times (replicate n (Audio ?t))) = n" for n
    by (simp only: audio_times_replicate length_replicate)
  have v99: "\<not> (0 < length (video_times (replicate 99 (Video ?t))) \<and>
      length (video_times (replicate 99 (Video ?t))) mod 100 = 0)"
    by (simp only: v) simp
  have v100: "0 < length (video_times (replicate 100 (Video ?t))) \<and>
      length (video_times (replicate 100 (Video ?t))) mod 100 = 0"
    by (simp only: v) simp
  have a499: "\<not> (0 < length (audio_times (replicate 499 (Audio ?t))) \<and>
      length (audio_times (replicate 499 (Audio ?t))) mod 500 = 0)"
    by (simp only: a) simp
  have a500: "0 < length (audio_times (replicate 500 (Audio ?t))) \<and>
      length (audio_times (replicate 500 (Audio ?t))) mod 500 = 0"
    by (simp only: a) simp
  have "filter is_periodic (snd (video_callback ?t
      (fst (run (replicate 99 (Video ?t)) init_timing)))) = []"
    using v99 unfolding video_periodic_iff[of ?t "replicate 99 (Video ?t)", symmetric]
    by (rule notnotD)
  moreover have "filter is_periodic (snd (video_callback ?t
      (fst (run (replicate 100 (Video ?t)) init_timing)))) \<noteq> []"
    using v100 unfolding video_periodic_iff[of ?t "replicate 100 (Video ?t)", symmetric] .
  moreover have "filter is_periodic (snd (audio_callback ?t
      (fst (run (replicate 499 (Audio ?t)) init_timing)))) = []"
    using a499 unfolding audio_periodic_iff[of ?t "replicate 499 (Audio ?t)", symmetric]
    by (rule notnotD)
  moreover have "filter is_periodic (snd (audio_callback ?t
      (fst (run (replicate 500 (Audio ?t)) init_timing)))) \<noteq> []"
    using a500 unfolding audio_periodic_iff[of ?t "replicate 500 (Audio ?t)", symmetric] .
  ultimately show ?thesis by (intro conjI)
qed

text \<open>
  Claim C8, as amended. Each callback writes the variables of its own kind only. For every
  interleaving of video and audio calls, the lines that the video calls print and the
  video variables afterwards are those of the video calls run alone, and the audio
  variables afterwards are those of the audio calls run alone. What an audio call prints
  depends on the audio variables and on \<open>startTime\<close>, which the first video call
  writes, and on nothing else.
\<close>

theorem callbacks_separate:
  "video_out cs (snd (run cs init_timing)) = snd (run (map Video (video_times cs)) init_timing) \<and>
   video_vars (fst (run cs init_timing)) =
     video_vars (fst (run (map Video (video_times cs)) init_timing)) \<and>
   audio_vars (fst (run cs init_timing)) =
     audio_vars (fst (run (map Audio (audio_times cs)) init_timing)) \<and>
   audio_vars (fst (video_callback t s)) = audio_vars s \<and>
   video_vars (fst (audio_callback t s)) = video_vars s \<and>
   (audio_vars s1 = audio_vars s2 \<and> startTime s1 = startTime s2 \<longrightarrow>
      snd (audio_callback t s1) = snd (audio_callback t s2))"
proof -
  have "video_vars init_timing = video_vars init_timing" by simp
  note v = video_out_interleaved[OF this, of cs]
  have "audio_vars init_timing = audio_vars init_timing" by simp
  note a = audio_vars_interleaved[OF this, of cs]
  have r: "audio_vars s1 = audio_vars s2 \<and> startTime s1 = startTime s2 \<longrightarrow>
      snd (audio_callback t s1) = snd (audio_callback t s2)"
    using audio_reads_audio[of s1 s2 t] by simp
  from v a r video_keeps_audio[of t s] audio_keeps_video_vars[of t s]
  show ?thesis by (intro conjI) simp_all
qed

theorem callbacks_separate_witness:
  "snd (audio_callback (Time 9 (Some 9)) init_timing) =
     snd (audio_callback (Time 9 (Some 9)) (init_timing\<lparr>frameCount := 7, totalEncodeTime := 99\<rparr>)) \<and>
   video_out [Audio (Time 1 (Some 1)), Video (Time 2 (Some 2))]
       (snd (run [Audio (Time 1 (Some 1)), Video (Time 2 (Some 2))] init_timing))
     = snd (run [Video (Time 2 (Some 2))] init_timing)"
proof -
  let ?s2 = "init_timing\<lparr>frameCount := 7, totalEncodeTime := 99\<rparr>"
  let ?cs = "[Audio (Time 1 (Some 1)), Video (Time 2 (Some 2))]"
  let ?t = "Time 9 (Some 9)"
  have h: "audio_vars init_timing = audio_vars ?s2 \<and> startTime init_timing = startTime ?s2"
    by (simp add: audio_vars_def)
  note th = callbacks_separate[of ?cs ?t init_timing init_timing ?s2]
  have a: "snd (audio_callback ?t init_timing) = snd (audio_callback ?t ?s2)"
    using th h by blast
  have v: "video_out ?cs (snd (run ?cs init_timing))
             = snd (run (map Video (video_times ?cs)) init_timing)"
    using th by blast
  have m: "map Video (video_times ?cs) = [Video (Time 2 (Some 2))]" by simp
  show ?thesis using a v unfolding m by (rule conjI)
qed

text \<open>
  Claim C8 as stated fails: the same single audio call prints another first-frame line
  (the delay from the video start) when a video call precedes it.
\<close>

theorem callbacks_separate_counterexample:
  "audio_times [Audio (Time 63900000000000000009 (Some 9))] =
     audio_times [Video (Time 63900000000000000005 (Some 5)),
                  Audio (Time 63900000000000000009 (Some 9))] \<and>
   audio_out [Audio (Time 63900000000000000009 (Some 9))]
       (snd (run [Audio (Time 63900000000000000009 (Some 9))] init_timing))
     = [ [AudioFirstFrame (Time 63900000000000000009 (Some 9)) 9223372036854775807 0] ] \<and>
   audio_out [Video (Time 63900000000000000005 (Some 5)),
              Audio (Time 63900000000000000009 (Some 9))]
       (snd (run [Video (Time 63900000000000000005 (Some 5)),
                  Audio (Time 63900000000000000009 (Some 9))] init_timing))
     = [ [AudioFirstFrame (Time 63900000000000000009 (Some 9)) 4 0] ]"
  by (simp add: init_timing_def video_callback_def audio_callback_def time_sub_def sat64_def
      maxDuration_def minDuration_def zero_time_def)

section \<open>Properties of the two main functions\<close>

lemma final_video_iff:
  "filter is_final_video (final_stats s) \<noteq> [] \<longleftrightarrow> 0 < frameCount s"
  by (simp add: final_stats_def)

lemma final_audio_always: "FinalAudioStats (audioFrameCount s) \<in> set (final_stats s)"
  by (simp add: final_stats_def)

lemma printed_lines_append: "printed_lines (as @ bs) = printed_lines as @ printed_lines bs"
  by (induction as rule: printed_lines.induct) auto

lemma printed_lines_Print: "printed_lines (map Print ls) = ls"
  by (induction ls) auto

lemma printed_lines_Sleep: "printed_lines (replicate k (Sleep n)) = []"
  by (induction k) auto

lemma printed_lines_teardown: "printed_lines (teardown s) = final_stats s"
  by (simp add: teardown_def printed_lines_append printed_lines_Print)

lemma after_fst: "fst (after as r) = as @ fst r"
  by (simp add: after_def)

lemma after_snd: "snd (after as r) = snd r"
  by (simp add: after_def)

lemma live_monitor_returned:
  "snd (live_monitor e) = Returned \<longleftrightarrow> (\<exists>k. presence_loop 0 0 (snapshots e) = Some k)"
  by (simp add: live_monitor_def split: option.splits)

lemma live_monitor_trace:
  "presence_loop 0 0 (snapshots e) = Some k \<Longrightarrow>
   fst (live_monitor e) =
     (replicate k (Sleep 1) @ [LogNoParticipants]) @ teardown (fst (run (calls e) init_timing))"
  by (simp add: live_monitor_def)

lemma live_session_ok:
  "\<not> session_err e \<Longrightarrow>
   live_session e w h rest =
     after [ConnectToRoom, StartVideoEncoder w h rest, StartAudioEncoder, PublishAudio,
            PublishVideo (uint w) (uint h)] (live_monitor e)"
  by (simp add: session_err_def live_session_def after_def)

lemma live_session_err:
  "session_err e \<Longrightarrow> snd (live_session e w h rest) \<noteq> Returned \<and>
     snd (live_session e w h rest) \<noteq> Polling"
  unfolding session_err_def
  by (elim disjE) (simp_all add: live_session_def after_snd)

lemma main_live_ok:
  "\<not> pipes_err e \<Longrightarrow>
   main_live e =
     after [RemovePipes, Mkfifo ''/tmp/video_pipe.yuv'', Mkfifo ''/tmp/audio_pipe.raw'',
            OpenPipe ''/tmp/video_pipe.yuv'', OpenPipe ''/tmp/audio_pipe.raw''] (live_header e)"
  by (simp add: pipes_err_def main_live_def after_def)

lemma main_live_err:
  "pipes_err e \<Longrightarrow> (\<exists>msg. snd (main_live e) = Fatal msg) \<and> filter is_publish (fst (main_live e)) = []"
  unfolding pipes_err_def
  by (elim disjE) (simp_all add: main_live_def after_def)

section \<open>Properties of the video header\<close>

lemma disj3:
  fixes b2 b3 :: byte
  shows "(push_bit 16 (ucast b2) :: 32 word) AND push_bit 24 (ucast b3) = 0"
  by (auto simp: bit_eq_iff bit_simps dest: bit_imp_le_length)

lemma disj2:
  fixes b1 b2 b3 :: byte
  shows "(push_bit 8 (ucast b1) :: 32 word) AND
           (push_bit 16 (ucast b2) OR push_bit 24 (ucast b3)) = 0"
  by (auto simp: bit_eq_iff bit_simps dest: bit_imp_le_length)

lemma disj1:
  fixes b0 b1 b2 b3 :: byte
  shows "(ucast b0 :: 32 word) AND
           (push_bit 8 (ucast b1) OR push_bit 16 (ucast b2) OR push_bit 24 (ucast b3)) = 0"
  by (auto simp: bit_eq_iff bit_simps dest: bit_imp_le_length)

lemma Uint32_sum:
  "Uint32 [b0, b1, b2, b3] =
     ucast b0 + (push_bit 8 (ucast b1) + (push_bit 16 (ucast b2) + push_bit 24 (ucast b3)))"
proof -
  have "Uint32 [b0, b1, b2, b3] =
      ucast b0 OR (push_bit 8 (ucast b1) OR (push_bit 16 (ucast b2) OR push_bit 24 (ucast b3)))"
    by (simp add: Uint32_def)
  also have "\<dots> = ucast b0 +
      (push_bit 8 (ucast b1) OR (push_bit 16 (ucast b2) OR push_bit 24 (ucast b3)))"
    by (rule disjunctive_add_eq_or[OF disj1, symmetric])
  also have "push_bit 8 (ucast b1) OR (push_bit 16 (ucast b2) OR push_bit 24 (ucast b3)) =
      push_bit 8 (ucast b1) + (push_bit 16 (ucast b2) OR push_bit 24 (ucast b3) :: 32 word)"
    by (rule disjunctive_add_eq_or[OF disj2, symmetric])
  also have "push_bit 16 (ucast b2) OR push_bit 24 (ucast b3) =
      (push_bit 16 (ucast b2) + push_bit 24 (ucast b3) :: 32 word)"
    by (rule disjunctive_add_eq_or[OF disj3, symmetric])
  finally show ?thesis .
qed

lemma byte_less: "unat (b :: byte) < 256"
  using unsigned_less[of b, where ?'a = nat] by simp

lemma Uint32_of_nat:
  "Uint32 [b0, b1, b2, b3] =
     of_nat (unat b0 + 256 * unat b1 + 65536 * unat b2 + 16777216 * unat b3)"
  by (simp add: Uint32_sum push_bit_eq_mult)

lemma unat_of_nat32: "N < 2 ^ 32 \<Longrightarrow> unat (of_nat N :: 32 word) = N"
  by (simp add: unat_of_nat)

lemma Uint32_value:
  "unat (Uint32 [b0, b1, b2, b3]) =
     unat b0 + 256 * unat b1 + 65536 * unat b2 + 16777216 * unat b3"
proof -
  have "unat b0 + 256 * unat b1 + 65536 * unat b2 + 16777216 * unat b3 < 2 ^ 32"
    using byte_less[of b0] byte_less[of b1] byte_less[of b2] byte_less[of b3] by simp
  then show ?thesis
    unfolding Uint32_of_nat by (rule unat_of_nat32)
qed

lemma take4: "4 \<le> length ch \<Longrightarrow> take 4 ch = [ch ! 0, ch ! 1, ch ! 2, ch ! 3]"
  by (auto simp: numeral_eq_Suc Suc_le_length_iff)

lemma Uint32_take:
  assumes "i + 4 \<le> length ch"
  shows "unat (Uint32 (take 4 (drop i ch))) = le32 ch i"
proof -
  have "take 4 (drop i ch) = [ch ! i, ch ! (i + 1), ch ! (i + 2), ch ! (i + 3)]"
    using assms take4[of "drop i ch"] by (simp add: add.commute)
  then show ?thesis by (simp add: Uint32_value le32_def)
qed

lemma binary_Read_ok:
  "4 \<le> length ch \<Longrightarrow> binary_Read ch = Inr (Uint32 (take 4 ch), drop 4 ch)"
  by (simp add: binary_Read_def ReadFull_def)

lemma binary_Read_short:
  "length ch < 4 \<Longrightarrow> \<exists>err. binary_Read ch = Inl err"
  by (simp add: binary_Read_def ReadFull_def)

lemma live_header_ok:
  assumes "8 \<le> length (raw_video e)"
  shows "live_header e =
     after [LogDimensions (Uint32 (take 4 (raw_video e))) (Uint32 (take 4 (drop 4 (raw_video e))))]
       (live_session e (Uint32 (take 4 (raw_video e))) (Uint32 (take 4 (drop 4 (raw_video e))))
          (drop 8 (raw_video e)))"
proof -
  have a: "binary_Read (raw_video e) = Inr (Uint32 (take 4 (raw_video e)), drop 4 (raw_video e))"
    using assms by (intro binary_Read_ok) simp
  have b: "binary_Read (drop 4 (raw_video e)) =
      Inr (Uint32 (take 4 (drop 4 (raw_video e))), drop 4 (drop 4 (raw_video e)))"
    using assms by (intro binary_Read_ok) simp
  show ?thesis by (simp add: live_header_def a b)
qed

lemma live_header_short:
  assumes "length (raw_video e) < 8"
  shows "live_header e = ([], Fatal ''Error reading frame width:'') \<or>
         live_header e = ([], Fatal ''Error reading frame height:'')"
proof (cases "length (raw_video e) < 4")
  case True
  from binary_Read_short[OF this] show ?thesis by (auto simp: live_header_def)
next
  case False
  then have a: "binary_Read (raw_video e) = Inr (Uint32 (take 4 (raw_video e)), drop 4 (raw_video e))"
    by (intro binary_Read_ok) simp
  have "length (drop 4 (raw_video e)) < 4" using assms by simp
  from binary_Read_short[OF this] show ?thesis by (auto simp: live_header_def a)
qed

lemma main_live_short:
  assumes "length (raw_video e) < 8"
  shows "(\<exists>msg. snd (main_live e) = Fatal msg) \<and> filter is_publish (fst (main_live e)) = []"
proof (cases "pipes_err e")
  case True
  then show ?thesis by (rule main_live_err)
next
  case False
  from live_header_short[OF assms] show ?thesis
    unfolding main_live_ok[OF False] by (auto simp: after_def)
qed

section \<open>Termination, clean-up and the final report\<close>

lemma main_file_ok:
  "\<not> dotenv_err e \<Longrightarrow> \<not> session_err e \<Longrightarrow>
   main_file e =
     ([ConnectToRoom, StartVideoEncoderFromFile, StartAudioEncoderFromFile,
       PublishVideo 512 512, PublishAudio] @ [Sleep 60] @
        teardown (fst (run (calls e) init_timing)), Returned)"
  by (simp add: session_err_def main_file_def after_def)

lemma main_file_err:
  "dotenv_err e \<or> session_err e \<Longrightarrow> snd (main_file e) \<noteq> Returned"
  unfolding session_err_def
  by (elim disjE) (simp_all add: main_file_def after_snd)

lemma main_file_returned_iff:
  "snd (main_file e) = Returned \<longleftrightarrow> \<not> dotenv_err e \<and> \<not> session_err e"
  using main_file_err[of e] main_file_ok[of e] by (cases "dotenv_err e \<or> session_err e") auto

lemma main_live_returned_iff:
  "snd (main_live e) = Returned \<longleftrightarrow>
     \<not> pipes_err e \<and> 8 \<le> length (raw_video e) \<and> \<not> session_err e \<and>
     (\<exists>k. presence_loop 0 0 (snapshots e) = Some k)"
proof (cases "pipes_err e")
  case True
  with main_live_err[OF True] show ?thesis by auto
next
  case np: False
  show ?thesis
  proof (cases "8 \<le> length (raw_video e)")
    case False
    then have "length (raw_video e) < 8" by simp
    from main_live_short[OF this] False show ?thesis by auto
  next
    case h: True
    show ?thesis
    proof (cases "session_err e")
      case True
      from live_session_err[OF True] show ?thesis
        using True by (simp add: main_live_ok[OF np] live_header_ok[OF h] after_snd)
    next
      case False
      show ?thesis
        using np h False
        by (simp add: main_live_ok[OF np] live_header_ok[OF h] live_session_ok[OF False]
            after_snd live_monitor_returned)
    qed
  qed
qed

lemma main_live_trace:
  assumes "snd (main_live e) = Returned"
  shows "\<exists>pre. fst (main_live e) =
     pre @ [LogNoParticipants] @ teardown (fst (run (calls e) init_timing)) \<and>
     printed_lines pre = []"
proof -
  from assms have c: "\<not> pipes_err e" "8 \<le> length (raw_video e)" "\<not> session_err e"
    and "\<exists>k. presence_loop 0 0 (snapshots e) = Some k"
    by (simp_all add: main_live_returned_iff)
  then obtain k where k: "presence_loop 0 0 (snapshots e) = Some k" by blast
  let ?W = "Uint32 (take 4 (raw_video e))"
  let ?H = "Uint32 (take 4 (drop 4 (raw_video e)))"
  let ?pre = "[RemovePipes, Mkfifo ''/tmp/video_pipe.yuv'', Mkfifo ''/tmp/audio_pipe.raw'',
      OpenPipe ''/tmp/video_pipe.yuv'', OpenPipe ''/tmp/audio_pipe.raw'',
      LogDimensions ?W ?H, ConnectToRoom, StartVideoEncoder ?W ?H (drop 8 (raw_video e)),
      StartAudioEncoder, PublishAudio, PublishVideo (uint ?W) (uint ?H)] @
      replicate k (Sleep 1)"
  have "fst (main_live e) =
      ?pre @ [LogNoParticipants] @ teardown (fst (run (calls e) init_timing))"
    by (simp add: main_live_ok[OF c(1)] live_header_ok[OF c(2)] live_session_ok[OF c(3)]
        after_fst live_monitor_trace[OF k])
  moreover have "printed_lines ?pre = []"
    by (simp add: printed_lines_append printed_lines_Sleep)
  ultimately show ?thesis by blast
qed

lemma quiet_env_ok:
  "\<not> pipes_err quiet_env" "\<not> session_err quiet_env" "\<not> dotenv_err quiet_env"
  "8 \<le> length (raw_video quiet_env)"
  "presence_loop 0 0 (snapshots quiet_env) = Some 4"
  by (simp_all add: quiet_env_def pipes_err_def session_err_def presence_step_def)

lemma final_stats_lines:
  "final_stats s =
     (if 0 < frameCount s
      then [FinalVideoStats (frameCount s) (go_div (totalEncodeTime s) (frameCount s))
              (minEncodeTime s) (maxEncodeTime s)]
      else []) @
     [FinalAudioStats (audioFrameCount s)]"
  by (simp add: final_stats_def)

lemma run_total:
  assumes "monotonic 0 (video_times cs)"
  shows "totalEncodeTime (fst (run cs init_timing)) = sum_list (intervals (video_times cs))"
proof (cases "video_times cs = []")
  case False
  from run_fresh[OF fresh_init assms False] show ?thesis by simp
next
  case True
  have "video_vars (fst (run cs init_timing)) =
        video_vars (fst (run (map Video (video_times cs)) init_timing))"
    using video_out_interleaved[of init_timing init_timing cs] by simp
  then have "totalEncodeTime (fst (run cs init_timing)) = totalEncodeTime init_timing"
    unfolding True by (simp add: video_vars_def)
  then show ?thesis using True by (simp add: init_timing_def)
qed

lemma quiet_env_stats:
  "frameCount (fst (run (calls quiet_env) init_timing)) = 2"
  "totalEncodeTime (fst (run (calls quiet_env) init_timing)) = 80"
  "minEncodeTime (fst (run (calls quiet_env) init_timing)) = 40"
  "maxEncodeTime (fst (run (calls quiet_env) init_timing)) = 40"
  "audioFrameCount (fst (run (calls quiet_env) init_timing)) = 0"
  by (simp_all add: quiet_env_def init_timing_def video_callback_def Let_def time_sub_def
      sat64_def maxDuration_def minDuration_def wrap64_def Hour_def go_rem_def go_div_def)

text \<open>
  Claim C5. \<open>main\<close> of stream.go returns exactly when the start-up succeeds and the
  presence loop breaks, \<open>main\<close> of stream-file.go exactly when the start-up succeeds
  (it then waits 60 seconds). In both cases the last actions before it returns are the
  final statistics lines, the kill of the video encoder, the kill of the audio encoder
  and the disconnect, in this order. The final statistics are the values accumulated by
  the callbacks: when at least one interval was recorded, the video line with the interval
  count, the average (total / count), the minimum and the maximum, and always the audio
  line with the audio frame count; the two counts are the numbers of calls after the first
  of each kind, and under a monotonic clock the total is the sum of the intervals.
\<close>

theorem teardown_performed:
  "(snd (main_live e) = Returned \<longleftrightarrow>
      \<not> pipes_err e \<and> 8 \<le> length (raw_video e) \<and> \<not> session_err e \<and>
      (\<exists>k. presence_loop 0 0 (snapshots e) = Some k)) \<and>
   (snd (main_live e) = Returned \<longrightarrow>
      (\<exists>pre. fst (main_live e) =
         pre @ [LogNoParticipants] @ map Print (final_stats (fst (run (calls e) init_timing))) @
           [KillVideo, KillAudio, Disconnect])) \<and>
   (snd (main_file e) = Returned \<longleftrightarrow> \<not> dotenv_err e \<and> \<not> session_err e) \<and>
   (snd (main_file e) = Returned \<longrightarrow>
      (\<exists>pre. fst (main_file e) =
         pre @ [Sleep 60] @ map Print (final_stats (fst (run (calls e) init_timing))) @
           [KillVideo, KillAudio, Disconnect])) \<and>
   FinalAudioStats (audioFrameCount (fst (run (calls e) init_timing)))
     \<in> set (final_stats (fst (run (calls e) init_timing))) \<and>
   final_stats (fst (run (calls e) init_timing)) =
     (if 0 < frameCount (fst (run (calls e) init_timing))
      then [FinalVideoStats (frameCount (fst (run (calls e) init_timing)))
              (go_div (totalEncodeTime (fst (run (calls e) init_timing)))
                 (frameCount (fst (run (calls e) init_timing))))
              (minEncodeTime (fst (run (calls e) init_timing)))
              (maxEncodeTime (fst (run (calls e) init_timing)))]
      else []) @
     [FinalAudioStats (audioFrameCount (fst (run (calls e) init_timing)))] \<and>
   frameCount (fst (run (calls e) init_timing)) =
     max 0 (int (length (video_times (calls e))) - 1) \<and>
   audioFrameCount (fst (run (calls e) init_timing)) =
     max 0 (int (length (audio_times (calls e))) - 1) \<and>
   (monotonic 0 (video_times (calls e)) \<longrightarrow>
      totalEncodeTime (fst (run (calls e) init_timing)) =
        sum_list (intervals (video_times (calls e))))"
proof -
  let ?S = "fst (run (calls e) init_timing)"
  have a: "snd (main_live e) = Returned \<longrightarrow>
      (\<exists>pre. fst (main_live e) =
         pre @ [LogNoParticipants] @ map Print (final_stats ?S) @ [KillVideo, KillAudio, Disconnect])"
  proof
    assume "snd (main_live e) = Returned"
    from main_live_trace[OF this] show "\<exists>pre. fst (main_live e) =
         pre @ [LogNoParticipants] @ map Print (final_stats ?S) @ [KillVideo, KillAudio, Disconnect]"
      unfolding teardown_def by blast
  qed
  have b: "snd (main_file e) = Returned \<longrightarrow>
      (\<exists>pre. fst (main_file e) =
         pre @ [Sleep 60] @ map Print (final_stats ?S) @ [KillVideo, KillAudio, Disconnect])"
  proof
    assume "snd (main_file e) = Returned"
    then have "\<not> dotenv_err e" "\<not> session_err e" by (simp_all add: main_file_returned_iff)
    from main_file_ok[OF this] have "fst (main_file e) =
        [ConnectToRoom, StartVideoEncoderFromFile, StartAudioEncoderFromFile,
         PublishVideo 512 512, PublishAudio] @ [Sleep 60] @ map Print (final_stats ?S) @
          [KillVideo, KillAudio, Disconnect]"
      unfolding teardown_def by simp
    then show "\<exists>pre. fst (main_file e) =
         pre @ [Sleep 60] @ map Print (final_stats ?S) @ [KillVideo, KillAudio, Disconnect]"
      by blast
  qed
  have c: "frameCount ?S = max 0 (int (length (video_times (calls e))) - 1)"
    "audioFrameCount ?S = max 0 (int (length (audio_times (calls e))) - 1)"
    using run_counts[of "calls e" init_timing] by (simp_all add: init_timing_def)
  have t: "monotonic 0 (video_times (calls e)) \<longrightarrow>
      totalEncodeTime ?S = sum_list (intervals (video_times (calls e)))"
    using run_total[of "calls e"] by blast
  from main_live_returned_iff[of e] a main_file_returned_iff[of e] b final_audio_always[of ?S]
    final_stats_lines[of ?S] c t
  show ?thesis by (intro conjI)
qed

theorem teardown_performed_witness:
  "snd (main_live quiet_env) = Returned \<and> snd (main_file quiet_env) = Returned \<and>
   monotonic 0 (video_times (calls quiet_env)) \<and>
   (\<exists>pre. fst (main_live quiet_env) =
      pre @ [LogNoParticipants] @
        [Print (FinalVideoStats 2 40 40 40), Print (FinalAudioStats 0)] @
        [KillVideo, KillAudio, Disconnect]) \<and>
   (\<exists>pre. fst (main_file quiet_env) =
      pre @ [Sleep 60] @
        [Print (FinalVideoStats 2 40 40 40), Print (FinalAudioStats 0)] @
        [KillVideo, KillAudio, Disconnect]) \<and>
   totalEncodeTime (fst (run (calls quiet_env) init_timing)) =
     sum_list (intervals (video_times (calls quiet_env)))"
proof -
  let ?S = "fst (run (calls quiet_env) init_timing)"
  note t = teardown_performed[of quiet_env]
  have l: "snd (main_live quiet_env) = Returned" using t quiet_env_ok by blast
  have f: "snd (main_file quiet_env) = Returned" using t quiet_env_ok by blast
  have m: "monotonic 0 (video_times (calls quiet_env))" by (simp add: quiet_env_def)
  have "final_stats ?S =
     (if 0 < frameCount ?S
      then [FinalVideoStats (frameCount ?S) (go_div (totalEncodeTime ?S) (frameCount ?S))
              (minEncodeTime ?S) (maxEncodeTime ?S)]
      else []) @ [FinalAudioStats (audioFrameCount ?S)]"
    using t by blast
  then have fs: "final_stats ?S = [FinalVideoStats 2 40 40 40, FinalAudioStats 0]"
    unfolding quiet_env_stats by (simp add: go_div_def)
  have tl: "\<exists>pre. fst (main_live quiet_env) =
      pre @ [LogNoParticipants] @ map Print (final_stats ?S) @ [KillVideo, KillAudio, Disconnect]"
    using t l by blast
  have tf: "\<exists>pre. fst (main_file quiet_env) =
      pre @ [Sleep 60] @ map Print (final_stats ?S) @ [KillVideo, KillAudio, Disconnect]"
    using t f by blast
  have tot: "totalEncodeTime ?S = sum_list (intervals (video_times (calls quiet_env)))"
    using t m by blast
  from tl tf show ?thesis unfolding fs using l f m tot by simp
qed

text \<open>
  Claim C10. The final report has the video statistics line exactly when the video
  callback has been called at least twice, and it always has the audio line, with count 0
  when no audio frame was delivered. In both variants the statistics lines that
  \<open>main\<close> itself prints before it returns are exactly this report.
\<close>

theorem final_report:
  "(filter is_final_video (final_stats (fst (run cs init_timing))) \<noteq> [] \<longleftrightarrow>
      2 \<le> length (video_times cs)) \<and>
   FinalAudioStats (audioFrameCount (fst (run cs init_timing)))
     \<in> set (final_stats (fst (run cs init_timing))) \<and>
   (audio_times cs = [] \<longrightarrow> FinalAudioStats 0 \<in> set (final_stats (fst (run cs init_timing)))) \<and>
   (snd (main_live e) = Returned \<longrightarrow>
      printed_lines (fst (main_live e)) = final_stats (fst (run (calls e) init_timing))) \<and>
   (snd (main_file e) = Returned \<longrightarrow>
      printed_lines (fst (main_file e)) = final_stats (fst (run (calls e) init_timing)))"
proof -
  let ?s = "fst (run cs init_timing)"
  have c: "frameCount ?s = max 0 (int (length (video_times cs)) - 1)"
    "audioFrameCount ?s = max 0 (int (length (audio_times cs)) - 1)"
    using run_counts[of cs init_timing] by (simp_all add: init_timing_def)
  have v: "filter is_final_video (final_stats ?s) \<noteq> [] \<longleftrightarrow> 2 \<le> length (video_times cs)"
    unfolding final_video_iff c(1) by auto
  have a0: "audio_times cs = [] \<longrightarrow> FinalAudioStats 0 \<in> set (final_stats ?s)"
  proof
    assume "audio_times cs = []"
    then have "audioFrameCount ?s = 0" using c(2) by simp
    with final_audio_always[of ?s] show "FinalAudioStats 0 \<in> set (final_stats ?s)" by simp
  qed
  have l: "snd (main_live e) = Returned \<longrightarrow>
      printed_lines (fst (main_live e)) = final_stats (fst (run (calls e) init_timing))"
  proof
    assume "snd (main_live e) = Returned"
    from main_live_trace[OF this] show
      "printed_lines (fst (main_live e)) = final_stats (fst (run (calls e) init_timing))"
      by (auto simp: printed_lines_append printed_lines_teardown)
  qed
  have f: "snd (main_file e) = Returned \<longrightarrow>
      printed_lines (fst (main_file e)) = final_stats (fst (run (calls e) init_timing))"
  proof
    assume "snd (main_file e) = Returned"
    then have "\<not> dotenv_err e" "\<not> session_err e" by (simp_all add: main_file_returned_iff)
    from main_file_ok[OF this] show
      "printed_lines (fst (main_file e)) = final_stats (fst (run (calls e) init_timing))"
      by (simp add: printed_lines_append printed_lines_teardown)
  qed
  from v final_audio_always[of ?s] a0 l f show ?thesis by (intro conjI)
qed

theorem final_report_witness:
  "audio_times (calls quiet_env) = [] \<and> snd (main_live quiet_env) = Returned \<and>
   snd (main_file quiet_env) = Returned \<and>
   FinalAudioStats 0 \<in> set (final_stats (fst (run (calls quiet_env) init_timing))) \<and>
   printed_lines (fst (main_live quiet_env)) = final_stats (fst (run (calls quiet_env) init_timing)) \<and>
   printed_lines (fst (main_file quiet_env)) = final_stats (fst (run (calls quiet_env) init_timing))"
proof -
  have a: "audio_times (calls quiet_env) = []" by (simp add: quiet_env_def)
  have l: "snd (main_live quiet_env) = Returned"
    using quiet_env_ok by (simp add: main_live_returned_iff)
  have f: "snd (main_file quiet_env) = Returned"
    using quiet_env_ok by (simp add: main_file_returned_iff)
  from final_report[of "calls quiet_env" quiet_env] a l f show ?thesis by blast
qed

text \<open>
  Claim C2. \<open>Uint32\<close> is the little-endian value of its four bytes. When the raw
  video channel has at least eight bytes, the width is the little-endian value of bytes
  0-3 and the height that of bytes 4-7, and the video encoder is started with these
  dimensions on the bytes from the ninth on. When the channel closes before eight bytes,
  \<open>main\<close> ends with a fatal error and has published no track.
\<close>

theorem header_decoded:
  "unat (Uint32 [b0, b1, b2, b3]) =
     unat b0 + 256 * unat b1 + 65536 * unat b2 + 16777216 * unat b3 \<and>
   (8 \<le> length (raw_video e) \<longrightarrow>
      (\<exists>frameWidth frameHeight.
         unat frameWidth = le32 (raw_video e) 0 \<and> unat frameHeight = le32 (raw_video e) 4 \<and>
         live_header e =
           after [LogDimensions frameWidth frameHeight]
             (live_session e frameWidth frameHeight (drop 8 (raw_video e))) \<and>
         (\<not> pipes_err e \<and> \<not> session_err e \<longrightarrow>
            StartVideoEncoder frameWidth frameHeight (drop 8 (raw_video e))
              \<in> set (fst (main_live e)) \<and>
            PublishVideo (uint frameWidth) (uint frameHeight) \<in> set (fst (main_live e))))) \<and>
   (length (raw_video e) < 8 \<longrightarrow>
      (\<exists>msg. snd (main_live e) = Fatal msg) \<and> filter is_publish (fst (main_live e)) = []) \<and>
   (length (raw_video e) < 8 \<and> \<not> pipes_err e \<longrightarrow>
      main_live e = ([RemovePipes, Mkfifo ''/tmp/video_pipe.yuv'', Mkfifo ''/tmp/audio_pipe.raw'',
          OpenPipe ''/tmp/video_pipe.yuv'', OpenPipe ''/tmp/audio_pipe.raw''],
          Fatal ''Error reading frame width:'') \<or>
      main_live e = ([RemovePipes, Mkfifo ''/tmp/video_pipe.yuv'', Mkfifo ''/tmp/audio_pipe.raw'',
          OpenPipe ''/tmp/video_pipe.yuv'', OpenPipe ''/tmp/audio_pipe.raw''],
          Fatal ''Error reading frame height:''))"
proof -
  let ?W = "Uint32 (take 4 (raw_video e))"
  let ?H = "Uint32 (take 4 (drop 4 (raw_video e)))"
  have ok: "8 \<le> length (raw_video e) \<longrightarrow>
      (\<exists>frameWidth frameHeight.
         unat frameWidth = le32 (raw_video e) 0 \<and> unat frameHeight = le32 (raw_video e) 4 \<and>
         live_header e =
           after [LogDimensions frameWidth frameHeight]
             (live_session e frameWidth frameHeight (drop 8 (raw_video e))) \<and>
         (\<not> pipes_err e \<and> \<not> session_err e \<longrightarrow>
            StartVideoEncoder frameWidth frameHeight (drop 8 (raw_video e))
              \<in> set (fst (main_live e)) \<and>
            PublishVideo (uint frameWidth) (uint frameHeight) \<in> set (fst (main_live e))))"
  proof
    assume h: "8 \<le> length (raw_video e)"
    have w: "unat ?W = le32 (raw_video e) 0"
      using h Uint32_take[of 0 "raw_video e"] by simp
    have hh: "unat ?H = le32 (raw_video e) 4"
      using h Uint32_take[of 4 "raw_video e"] by simp
    have m: "\<not> pipes_err e \<and> \<not> session_err e \<longrightarrow>
            StartVideoEncoder ?W ?H (drop 8 (raw_video e)) \<in> set (fst (main_live e)) \<and>
            PublishVideo (uint ?W) (uint ?H) \<in> set (fst (main_live e))"
    proof
      assume c: "\<not> pipes_err e \<and> \<not> session_err e"
      then have c1: "\<not> pipes_err e" and c2: "\<not> session_err e" by simp_all
      show "StartVideoEncoder ?W ?H (drop 8 (raw_video e)) \<in> set (fst (main_live e)) \<and>
            PublishVideo (uint ?W) (uint ?H) \<in> set (fst (main_live e))"
        by (simp add: main_live_ok[OF c1] live_header_ok[OF h] live_session_ok[OF c2] after_fst)
    qed
    from w hh live_header_ok[OF h] m show "\<exists>frameWidth frameHeight.
         unat frameWidth = le32 (raw_video e) 0 \<and> unat frameHeight = le32 (raw_video e) 4 \<and>
         live_header e =
           after [LogDimensions frameWidth frameHeight]
             (live_session e frameWidth frameHeight (drop 8 (raw_video e))) \<and>
         (\<not> pipes_err e \<and> \<not> session_err e \<longrightarrow>
            StartVideoEncoder frameWidth frameHeight (drop 8 (raw_video e))
              \<in> set (fst (main_live e)) \<and>
            PublishVideo (uint frameWidth) (uint frameHeight) \<in> set (fst (main_live e)))"
      by blast
  qed
  have short: "length (raw_video e) < 8 \<longrightarrow>
      (\<exists>msg. snd (main_live e) = Fatal msg) \<and> filter is_publish (fst (main_live e)) = []"
    using main_live_short[of e] by blast
  have msg: "length (raw_video e) < 8 \<and> \<not> pipes_err e \<longrightarrow>
      main_live e = ([RemovePipes, Mkfifo ''/tmp/video_pipe.yuv'', Mkfifo ''/tmp/audio_pipe.raw'',
          OpenPipe ''/tmp/video_pipe.yuv'', OpenPipe ''/tmp/audio_pipe.raw''],
          Fatal ''Error reading frame width:'') \<or>
      main_live e = ([RemovePipes, Mkfifo ''/tmp/video_pipe.yuv'', Mkfifo ''/tmp/audio_pipe.raw'',
          OpenPipe ''/tmp/video_pipe.yuv'', OpenPipe ''/tmp/audio_pipe.raw''],
          Fatal ''Error reading frame height:'')"
  proof
    assume a: "length (raw_video e) < 8 \<and> \<not> pipes_err e"
    then have s: "length (raw_video e) < 8" and p: "\<not> pipes_err e" by simp_all
    from live_header_short[OF s] show
     "main_live e = ([RemovePipes, Mkfifo ''/tmp/video_pipe.yuv'', Mkfifo ''/tmp/audio_pipe.raw'',
          OpenPipe ''/tmp/video_pipe.yuv'', OpenPipe ''/tmp/audio_pipe.raw''],
          Fatal ''Error reading frame width:'') \<or>
      main_live e = ([RemovePipes, Mkfifo ''/tmp/video_pipe.yuv'', Mkfifo ''/tmp/audio_pipe.raw'',
          OpenPipe ''/tmp/video_pipe.yuv'', OpenPipe ''/tmp/audio_pipe.raw''],
          Fatal ''Error reading frame height:'')"
      unfolding main_live_ok[OF p] by (auto simp: after_def)
  qed
  from Uint32_value[of b0 b1 b2 b3] ok short msg show ?thesis by (intro conjI)
qed

theorem header_decoded_witness:
  "8 \<le> length (raw_video quiet_env) \<and> \<not> pipes_err quiet_env \<and> \<not> session_err quiet_env \<and>
   (\<exists>frameWidth frameHeight. unat frameWidth = 512 \<and> unat frameHeight = 256 \<and>
      StartVideoEncoder frameWidth frameHeight [16, 17] \<in> set (fst (main_live quiet_env)) \<and>
      PublishVideo (uint frameWidth) (uint frameHeight) \<in> set (fst (main_live quiet_env))) \<and>
   length (raw_video (quiet_env\<lparr>raw_video := [0, 2, 0, 0, 0, 1]\<rparr>)) < 8 \<and>
   (\<exists>msg. snd (main_live (quiet_env\<lparr>raw_video := [0, 2, 0, 0, 0, 1]\<rparr>)) = Fatal msg) \<and>
   filter is_publish (fst (main_live (quiet_env\<lparr>raw_video := [0, 2, 0, 0, 0, 1]\<rparr>))) = []"
proof -
  let ?e = "quiet_env\<lparr>raw_video := [0, 2, 0, 0, 0, 1]\<rparr>"
  have h: "8 \<le> length (raw_video quiet_env)" "\<not> pipes_err quiet_env" "\<not> session_err quiet_env"
    using quiet_env_ok by simp_all
  have s: "length (raw_video ?e) < 8" by simp
  have w: "le32 (raw_video quiet_env) 0 = 512" "le32 (raw_video quiet_env) 4 = 256"
    "drop 8 (raw_video quiet_env) = [16, 17]"
    by (simp_all add: le32_def quiet_env_def)
  from header_decoded[of 0 0 0 0 quiet_env] h obtain frameWidth frameHeight where
    d: "unat frameWidth = le32 (raw_video quiet_env) 0"
       "unat frameHeight = le32 (raw_video quiet_env) 4"
       "StartVideoEncoder frameWidth frameHeight (drop 8 (raw_video quiet_env))
          \<in> set (fst (main_live quiet_env))"
       "PublishVideo (uint frameWidth) (uint frameHeight) \<in> set (fst (main_live quiet_env))"
    by blast
  have a: "\<exists>frameWidth frameHeight. unat frameWidth = 512 \<and> unat frameHeight = 256 \<and>
      StartVideoEncoder frameWidth frameHeight [16, 17] \<in> set (fst (main_live quiet_env)) \<and>
      PublishVideo (uint frameWidth) (uint frameHeight) \<in> set (fst (main_live quiet_env))"
    using d unfolding w by blast
  from header_decoded[of 0 0 0 0 ?e] s have
    b: "(\<exists>msg. snd (main_live ?e) = Fatal msg) \<and> filter is_publish (fst (main_live ?e)) = []"
    by blast
  from h a s b show ?thesis by blast
qed

end
